theory Spec2Isabelle
  imports Complex_Main "HOL-Library.AList"
begin

section \<open>Values of the Python program\<close>

text \<open>
  The auto hedger of \<^verbatim>\<open>autohedger.py\<close> books client trades, nets positions, picks a
  hedging strategy and places hedge orders on a simulated clock.

  Times are \<^verbatim>\<open>datetime\<close> values; the client file is parsed with second resolution, so a
  time is an integer number of seconds and \<^verbatim>\<open>timedelta(minutes=1)\<close> is 60.
  Quantities, prices and notionals are Python numbers; they are modelled as exact
  rationals, so rounding of binary floating point is outside this development.
  Assets, book names and strategy labels are Python strings.
\<close>

type_synonym datetime = int

definition minutes :: "int \<Rightarrow> int" where
  "minutes n = 60 * n"

text \<open>The exceptions the program can raise, by class, with the key or message.\<close>

datatype error = Exception string | KeyError string | TypeError string

text \<open>
  A Python \<^verbatim>\<open>dict\<close> from asset to number keeps its keys in insertion order: an
  association list with \<^const>\<open>AList.update\<close> as item assignment (an existing key keeps
  its place, a new key goes to the end). \<^verbatim>\<open>collections.Counter\<close> is a dict subclass:
  a missing key reads as 0 and \<^verbatim>\<open>update\<close> adds instead of replacing. The class of the
  object decides which \<^verbatim>\<open>update\<close> runs, so the class is part of the value.
\<close>

type_synonym pydict = "(string \<times> rat) list"

datatype mapping_obj = Dict pydict | Counter pydict

fun items :: "mapping_obj \<Rightarrow> pydict" where
  "items (Dict d) = d"
| "items (Counter d) = d"

definition keys :: "mapping_obj \<Rightarrow> string list" where
  "keys m = map fst (items m)"

definition values_of :: "mapping_obj \<Rightarrow> rat list" where
  "values_of m = map snd (items m)"

text \<open>\<^verbatim>\<open>self.get(elem, 0)\<close>, also what \<^verbatim>\<open>counter[elem]\<close> returns.\<close>

definition get0 :: "pydict \<Rightarrow> string \<Rightarrow> rat" where
  "get0 d k = (case map_of d k of None \<Rightarrow> 0 | Some v \<Rightarrow> v)"

text \<open>
  \<^verbatim>\<open>dict.update(other)\<close>: \<^verbatim>\<open>self[k] = v\<close> for every item of the other mapping.
\<close>

definition dict_update :: "pydict \<Rightarrow> pydict \<Rightarrow> pydict" where
  "dict_update d other = fold (\<lambda>(k, v) acc. AList.update k v acc) other d"

text \<open>
  \<^verbatim>\<open>Counter.update(other)\<close> for a mapping argument:
  \<^verbatim>\<open>self[elem] = count + self.get(elem, 0)\<close> for every item. (On an empty counter
  CPython takes \<^verbatim>\<open>dict.update\<close> as a fast path, which stores the same values.)
\<close>

definition counter_update :: "pydict \<Rightarrow> pydict \<Rightarrow> pydict" where
  "counter_update c other = fold (\<lambda>(k, v) acc. AList.update k (v + get0 acc k) acc) other c"

text \<open>\<^verbatim>\<open>m.update(other)\<close>, dispatched on the class of \<^verbatim>\<open>m\<close>.\<close>

fun py_update :: "mapping_obj \<Rightarrow> mapping_obj \<Rightarrow> mapping_obj" where
  "py_update (Dict d) other = Dict (dict_update d (items other))"
| "py_update (Counter c) other = Counter (counter_update c (items other))"

text \<open>
  A pandas \<^verbatim>\<open>DataFrame\<close>, as far as the program uses it: its rows, in order. A frame
  built from an empty list of records (\<^verbatim>\<open>pd.DataFrame([])\<close>, \<^verbatim>\<open>pd.DataFrame()\<close>) has
  no columns at all, and selecting a column of it raises \<^verbatim>\<open>KeyError\<close>; a frame that
  lost all its rows to a filter keeps its columns.
\<close>

datatype 'r frame = NoColumns | Frame "'r list"

fun iterrows :: "'r frame \<Rightarrow> 'r list" where
  "iterrows NoColumns = []"
| "iterrows (Frame rows) = rows"

section \<open>The ledger: Trade, Position, Book, Portfolio\<close>

record Trade =
  book :: string
  direction :: string
  trade_time :: datetime
  asset :: string
  denominated :: string
  quantity :: rat
  price :: rat

definition TRADE_DIRECTION_BUY :: string where
  "TRADE_DIRECTION_BUY = ''buy''"

definition TRADE_DIRECTION_SELL :: string where
  "TRADE_DIRECTION_SELL = ''sell''"

definition Trade_init ::
  "string \<Rightarrow> datetime \<Rightarrow> string \<Rightarrow> string \<Rightarrow> rat \<Rightarrow> rat \<Rightarrow> Trade" where
  "Trade_init b t a d q p =
     \<lparr> book = b,
       direction = (if q \<ge> 0 then TRADE_DIRECTION_BUY else TRADE_DIRECTION_SELL),
       trade_time = t, asset = a, denominated = d, quantity = q, price = p \<rparr>"

record Position =
  pos_asset :: string
  pos_quantity :: rat
  trades :: "Trade list"

definition Position_init :: "string \<Rightarrow> Position" where
  "Position_init a = \<lparr> pos_asset = a, pos_quantity = 0, trades = [] \<rparr>"

text \<open>\<^verbatim>\<open>Position.trade_add\<close>: append the trade, then add its quantity to the total.\<close>

definition Position_trade_add :: "Position \<Rightarrow> Trade \<Rightarrow> Position" where
  "Position_trade_add p t =
     p\<lparr> trades := trades p @ [t], pos_quantity := pos_quantity p + quantity t \<rparr>"

text \<open>
  \<^verbatim>\<open>get_trades_as_dataframe\<close> builds one record per trade and hands the list to
  \<^verbatim>\<open>pd.DataFrame\<close>; a row carries the fields of the trade, so the trade itself is the row.
\<close>

definition get_trades_as_dataframe :: "Position \<Rightarrow> Trade frame" where
  "get_trades_as_dataframe p = (if trades p = [] then NoColumns else Frame (trades p))"

text \<open>
  \<^verbatim>\<open>Position.get_trades\<close>: \<^verbatim>\<open>trades[trades["trade_time"] <= as_of_time]\<close>. The column
  is selected before anything is compared.
\<close>

definition Position_get_trades :: "Position \<Rightarrow> datetime \<Rightarrow> error + Trade frame" where
  "Position_get_trades p as_of_time =
     (case get_trades_as_dataframe p of
        NoColumns \<Rightarrow> Inl (KeyError ''trade_time'')
      | Frame rows \<Rightarrow> Inr (Frame (filter (\<lambda>r. trade_time r \<le> as_of_time) rows)))"

text \<open>
  \<^verbatim>\<open>Position.get_quantity\<close>: the running attribute when no time is passed, otherwise
  \<^verbatim>\<open>trades["quantity"].sum()\<close> over the filtered frame.
\<close>

definition Position_get_quantity :: "Position \<Rightarrow> datetime option \<Rightarrow> error + rat" where
  "Position_get_quantity p as_of_time =
     (case as_of_time of
        None \<Rightarrow> Inr (pos_quantity p)
      | Some t \<Rightarrow>
          (case Position_get_trades p t of
             Inl e \<Rightarrow> Inl e
           | Inr NoColumns \<Rightarrow> Inl (KeyError ''quantity'')
           | Inr (Frame rows) \<Rightarrow> Inr (sum_list (map quantity rows))))"

record Book =
  book_name :: string
  positions :: "(string \<times> Position) list"

definition Book_init :: "string \<Rightarrow> Book" where
  "Book_init n = \<lparr> book_name = n, positions = [] \<rparr>"

text \<open>
  \<^verbatim>\<open>Book.trade_add\<close>: a missing asset gets a fresh Position at the end of the dict,
  then the trade is added to the position stored under the asset. After the insertion
  the lookup \<^verbatim>\<open>self.positions[asset]\<close> always finds a position, so its \<open>None\<close> case
  is never taken.
\<close>

definition Book_trade_add :: "Book \<Rightarrow> Trade \<Rightarrow> Book" where
  "Book_trade_add b t =
     (let a = asset t;
          ps = (if a \<notin> fst ` set (positions b)
                then AList.update a (Position_init a) (positions b)
                else positions b)
      in case map_of ps a of
           None \<Rightarrow> b
         | Some p \<Rightarrow> b\<lparr> positions := AList.update a (Position_trade_add p t) ps \<rparr>)"

text \<open>
  \<^verbatim>\<open>Book.get_positions\<close>: a new dict with the quantity of every position, in the order
  of the book's dict. An exception of \<^verbatim>\<open>get_quantity\<close> ends the loop.
\<close>

fun get_positions_loop ::
  "(string \<times> Position) list \<Rightarrow> datetime option \<Rightarrow> pydict \<Rightarrow> error + pydict" where
  "get_positions_loop [] as_of_time acc = Inr acc"
| "get_positions_loop ((a, p) # rest) as_of_time acc =
     (case Position_get_quantity p as_of_time of
        Inl e \<Rightarrow> Inl e
      | Inr q \<Rightarrow> get_positions_loop rest as_of_time (AList.update a q acc))"

definition Book_get_positions :: "Book \<Rightarrow> datetime option \<Rightarrow> error + mapping_obj" where
  "Book_get_positions b as_of_time =
     (case get_positions_loop (positions b) as_of_time [] of
        Inl e \<Rightarrow> Inl e
      | Inr d \<Rightarrow> Inr (Dict d))"

record Portfolio =
  pf_name :: string
  books :: "Book list"

text \<open>
  \<^verbatim>\<open>Portfolio.net_positions\<close>: a Counter updated with the positions of every book in
  turn.
\<close>

fun net_positions_loop ::
  "Book list \<Rightarrow> datetime option \<Rightarrow> mapping_obj \<Rightarrow> error + mapping_obj" where
  "net_positions_loop [] as_of_time counter = Inr counter"
| "net_positions_loop (b # rest) as_of_time counter =
     (case Book_get_positions b as_of_time of
        Inl e \<Rightarrow> Inl e
      | Inr book_positions \<Rightarrow>
          net_positions_loop rest as_of_time (py_update counter book_positions))"

definition net_positions :: "Portfolio \<Rightarrow> datetime option \<Rightarrow> error + mapping_obj" where
  "net_positions pf as_of_time = net_positions_loop (books pf) as_of_time (Counter [])"

section \<open>The exchange\<close>

text \<open>
  The closing prices are fetched from the network when the Exchange is built; here they
  are the argument of the constructor. \<^verbatim>\<open>at_market_order\<close> reads
  \<^verbatim>\<open>self.close_prices[asset]\<close>, which raises \<^verbatim>\<open>KeyError\<close> for an asset without a
  price, and fills the whole order at that price.
\<close>

record Exchange =
  exchange_name :: string
  supported_assets :: "string list"
  close_prices :: pydict

definition SUPPORTED_ASSETS :: "string list" where
  "SUPPORTED_ASSETS = [''BTC'', ''ETH'']"

definition Exchange_init :: "string \<Rightarrow> pydict \<Rightarrow> Exchange" where
  "Exchange_init n prices =
     \<lparr> exchange_name = n, supported_assets = SUPPORTED_ASSETS, close_prices = prices \<rparr>"

definition at_market_order ::
  "Exchange \<Rightarrow> string \<Rightarrow> string \<Rightarrow> rat \<Rightarrow> datetime \<Rightarrow> error + Trade" where
  "at_market_order ex b a q t =
     (case map_of (close_prices ex) a of
        None \<Rightarrow> Inl (KeyError a)
      | Some p \<Rightarrow> Inr (Trade_init b t a ''USD'' q p))"

section \<open>The hedger\<close>

definition STRATEGY_SLOW :: string where
  "STRATEGY_SLOW = ''SLOW''"

definition STRATEGY_NORMAL :: string where
  "STRATEGY_NORMAL = ''NORMAL''"

definition STRATEGY_STEALTH :: string where
  "STRATEGY_STEALTH = ''STEALTH''"

definition SUPPORTED_STRATEGIES :: "string list" where
  "SUPPORTED_STRATEGIES = [STRATEGY_SLOW, STRATEGY_NORMAL, STRATEGY_STEALTH]"

text \<open>The entries of \<^verbatim>\<open>STRATEGY_PARAMETERS\<close>.\<close>

definition client_volume_max :: rat where
  "client_volume_max = 100000"

definition time_window :: int where
  "time_window = 10"

definition client_volume_trigger :: rat where
  "client_volume_trigger = 10000000"

definition execution_chunks :: nat where
  "execution_chunks = 5"

text \<open>A row of the client trades frame, with the notional column added on loading.\<close>

record client_row =
  row_trade_time :: datetime
  row_book :: string
  row_asset :: string
  row_denominated :: string
  row_quantity :: rat
  row_price :: rat
  row_notional :: rat

text \<open>
  The attributes of a Hedger that the hedging logic reads or writes. The portfolio
  holds references to the two books, so it always shows their current state: it is
  computed from them rather than stored. The execution queue holds the single-asset
  dicts built by the STEALTH strategy.
\<close>

record Hedger =
  exchange :: Exchange
  client_trades :: "client_row frame"
  client_book :: Book
  hedge_book :: Book
  start_time :: "datetime option"
  end_time :: "datetime option"
  execution_queue :: "mapping_obj list"

definition Hedger_init :: "pydict \<Rightarrow> Hedger" where
  "Hedger_init prices =
     \<lparr> exchange = Exchange_init ''MY EXCHANGE'' prices,
       client_trades = NoColumns,
       client_book = Book_init ''CLIENT BOOK'',
       hedge_book = Book_init ''HEDGE BOOK'',
       start_time = None,
       end_time = None,
       execution_queue = [] \<rparr>"

definition portfolio :: "Hedger \<Rightarrow> Portfolio" where
  "portfolio h = \<lparr> pf_name = ''Hedging Portfolio'', books = [client_book h, hedge_book h] \<rparr>"

text \<open>
  \<^verbatim>\<open>load_client_trades\<close>, from the parsed rows of the file: the notional column is
  assigned, the rows are sorted by time (rows with equal times keep their file order
  here), and the hedger starts one minute before the first trade and ends at the last.
  For a file without rows pandas yields not-a-time bounds; the model gives no hedger
  then (\<open>None\<close>), and what is proved about a loaded hedger is about a file with rows.
\<close>

definition load_client_trades :: "client_row list \<Rightarrow> Hedger \<Rightarrow> Hedger option" where
  "load_client_trades file_rows h =
     (if file_rows = [] then None
      else
        let rows = map (\<lambda>r. r\<lparr> row_notional := row_quantity r * row_price r \<rparr>) file_rows;
            sorted_rows = sort_key row_trade_time rows;
            times = map row_trade_time sorted_rows
        in Some (h\<lparr> client_trades := Frame sorted_rows,
                    start_time := Some (Min (set times) + minutes (- 1)),
                    end_time := Some (Max (set times)) \<rparr>))"

text \<open>
  \<^verbatim>\<open>client_trades_by_time\<close>: the rows with \<^verbatim>\<open>start_time < trade_time <= end_time\<close>.
  Before loading, the frame is \<^verbatim>\<open>pd.DataFrame()\<close> and the column is missing.
\<close>

definition client_trades_by_time ::
  "Hedger \<Rightarrow> datetime \<Rightarrow> datetime \<Rightarrow> error + client_row frame" where
  "client_trades_by_time h start_t end_t =
     (case client_trades h of
        NoColumns \<Rightarrow> Inl (KeyError ''trade_time'')
      | Frame rows \<Rightarrow>
          Inr (Frame (filter (\<lambda>r. row_trade_time r > start_t \<and> row_trade_time r \<le> end_t) rows)))"

definition book_row :: "client_row \<Rightarrow> Book \<Rightarrow> Book" where
  "book_row row b =
     Book_trade_add b
       (Trade_init (book_name b) (row_trade_time row) (row_asset row)
          (row_denominated row) (row_quantity row) (row_price row))"

definition book_client_trades ::
  "Hedger \<Rightarrow> datetime \<Rightarrow> datetime \<Rightarrow> error + (client_row frame \<times> Hedger)" where
  "book_client_trades h start_t end_t =
     (case client_trades_by_time h start_t end_t of
        Inl e \<Rightarrow> Inl e
      | Inr trades_to_book \<Rightarrow>
          Inr (trades_to_book,
               h\<lparr> client_book := fold book_row (iterrows trades_to_book) (client_book h) \<rparr>))"

text \<open>
  \<^verbatim>\<open>recent_client_volume\<close>. The program always passes the hedger time as
  \<^verbatim>\<open>as_of_time\<close>; the wall-clock default is not part of the model.
\<close>

definition recent_client_volume :: "Hedger \<Rightarrow> int \<Rightarrow> datetime \<Rightarrow> error + rat" where
  "recent_client_volume h sampling_window as_of_time =
     (if sampling_window < 0
      then Inl (Exception ''sampling_window must be positive number of minutes'')
      else
        let end_t = as_of_time;
            start_t = end_t + minutes (- sampling_window)
        in case client_trades_by_time h start_t end_t of
             Inl e \<Rightarrow> Inl e
           | Inr filtered_client_trades \<Rightarrow>
               Inr (sum_list (map row_notional (iterrows filtered_client_trades))))"

definition get_current_strategy :: "Hedger \<Rightarrow> datetime \<Rightarrow> mapping_obj \<Rightarrow> error + string" where
  "get_current_strategy h hedger_time client_notional_change =
     (case recent_client_volume h time_window hedger_time of
        Inl e \<Rightarrow> Inl e
      | Inr volume \<Rightarrow>
          if volume < client_volume_max then Inr STRATEGY_SLOW
          else if sum_list (values_of client_notional_change) > client_volume_trigger
          then Inr STRATEGY_STEALTH
          else Inr STRATEGY_NORMAL)"

text \<open>The two static netting helpers: a Counter updated with one item per row.\<close>

definition trades_net_by_position :: "client_row frame \<Rightarrow> mapping_obj" where
  "trades_net_by_position trades_frame =
     fold (\<lambda>row net. py_update net (Dict [(row_asset row, row_quantity row)]))
       (iterrows trades_frame) (Counter [])"

definition trades_net_by_notional :: "client_row frame \<Rightarrow> mapping_obj" where
  "trades_net_by_notional trades_frame =
     fold (\<lambda>row net. py_update net (Dict [(row_asset row, row_quantity row * row_price row)]))
       (iterrows trades_frame) (Counter [])"

text \<open>NORMAL: the negated value of every non-zero entry, in a plain dict.\<close>

definition get_hedge_quantities_normal :: "mapping_obj \<Rightarrow> mapping_obj" where
  "get_hedge_quantities_normal current_positions =
     Dict (fold (\<lambda>(a, current_position) hedge_quantities.
                   if current_position \<noteq> 0
                   then AList.update a ((- 1) * current_position) hedge_quantities
                   else hedge_quantities)
             (items current_positions) [])"

text \<open>
  \<^verbatim>\<open>zip(*lists)\<close>: the tuples of the i-th elements, as long as every list has one;
  no list at all gives no tuple.
\<close>

function zip_star :: "'a list list \<Rightarrow> 'a list list" where
  "zip_star xss =
     (if xss = [] \<or> (\<exists>xs \<in> set xss. xs = []) then []
      else map hd xss # zip_star (map tl xss))"
  by pat_completeness auto
termination
proof (relation "measure (\<lambda>xss. length (hd xss))")
  show "wf (measure (\<lambda>xss. length (hd xss)))" by simp
next
  fix xss :: "'a list list"
  assume "\<not> (xss = [] \<or> (\<exists>xs \<in> set xss. xs = []))"
  then show "(map tl xss, xss) \<in> measure (\<lambda>xss. length (hd xss))"
    by (cases xss) auto
qed

declare zip_star.simps [simp del]

text \<open>
  STEALTH: one list of chunks per asset, each chunk a single-asset dict holding
  \<^verbatim>\<open>multiplier*quantity/chunks\<close> with \<^verbatim>\<open>multiplier = -1 if quantity >= 0 else 1\<close>; the
  lists are interleaved by \<^verbatim>\<open>zip\<close>.
\<close>

definition stealth_chunks :: "string \<Rightarrow> rat \<Rightarrow> mapping_obj list" where
  "stealth_chunks a q =
     (let chunks = execution_chunks;
          multiplier = (if q \<ge> 0 then - 1 else 1)
      in map (\<lambda>chunk. Dict [(a, multiplier * q / of_nat chunks)]) [0..<chunks])"

definition get_hedge_quantities_stealth :: "mapping_obj \<Rightarrow> mapping_obj list" where
  "get_hedge_quantities_stealth current_positions =
     (let stealth_hedges_by_asset =
            fold (\<lambda>(a, q) by_asset. AList.update a (stealth_chunks a q) by_asset)
              (items current_positions) []
      in concat (zip_star (map snd stealth_hedges_by_asset)))"

text \<open>
  \<^verbatim>\<open>get_hedge_quantities\<close>. The result starts as an empty Counter; the NORMAL branch
  rebinds it to the plain dict of \<^verbatim>\<open>get_hedge_quantities_normal\<close>. The final
  \<^verbatim>\<open>update\<close> with the popped queue entry is the one of whichever class the result has.
\<close>

definition get_hedge_quantities ::
  "Hedger \<Rightarrow> mapping_obj \<Rightarrow> mapping_obj \<Rightarrow> string \<Rightarrow> error + (mapping_obj \<times> Hedger)" where
  "get_hedge_quantities h current_positions client_position_change strategy =
     (if strategy \<notin> set SUPPORTED_STRATEGIES
      then Inl (Exception (''Unknown hedging strategy '' @ strategy))
      else
        case (if strategy = STRATEGY_NORMAL
              then Inr (get_hedge_quantities_normal client_position_change, h)
              else if strategy = STRATEGY_SLOW
              then Inr (Counter [], h)
              else if strategy = STRATEGY_STEALTH
              then Inr (Counter [],
                        h\<lparr> execution_queue :=
                             execution_queue h @ get_hedge_quantities_stealth current_positions \<rparr>)
              else Inl (Exception (''Unimplemented strategy '' @ strategy)))
        of Inl e \<Rightarrow> Inl e
         | Inr (hedge_quantities, h1) \<Rightarrow>
             (case execution_queue h1 of
                [] \<Rightarrow> Inr (hedge_quantities, h1)
              | front # rest \<Rightarrow>
                  Inr (py_update hedge_quantities front, h1\<lparr> execution_queue := rest \<rparr>)))"

text \<open>
  \<^verbatim>\<open>place_hedge_orders\<close>: one market order per item of the mapping, booked into the
  hedge book; an exception of the exchange ends the loop.
\<close>

fun place_orders_loop :: "pydict \<Rightarrow> datetime \<Rightarrow> Hedger \<Rightarrow> error + Hedger" where
  "place_orders_loop [] trade_t h = Inr h"
| "place_orders_loop ((a, q) # rest) trade_t h =
     (case at_market_order (exchange h) (book_name (hedge_book h)) a q trade_t of
        Inl e \<Rightarrow> Inl e
      | Inr hedge_trade \<Rightarrow>
          place_orders_loop rest trade_t
            (h\<lparr> hedge_book := Book_trade_add (hedge_book h) hedge_trade \<rparr>))"

definition place_hedge_orders :: "Hedger \<Rightarrow> mapping_obj \<Rightarrow> datetime \<Rightarrow> error + Hedger" where
  "place_hedge_orders h hedge_positions trade_t =
     place_orders_loop (items hedge_positions) trade_t h"

text \<open>
  One pass through the body of the \<^verbatim>\<open>while\<close> loop of \<^verbatim>\<open>run_hedging\<close>, on the pair
  of the local \<^verbatim>\<open>hedger_time\<close> and the hedger. (The log line after the orders calls
  \<^verbatim>\<open>net_positions()\<close> once more; it only reads.)
\<close>

definition cycle :: "datetime \<times> Hedger \<Rightarrow> error + (datetime \<times> Hedger)" where
  "cycle s =
     (let h = snd s;
          last_cycle_time = fst s;
          hedger_time = fst s + minutes 1
      in case book_client_trades h last_cycle_time hedger_time of
           Inl e \<Rightarrow> Inl e
         | Inr (client_trades_booked, h1) \<Rightarrow>
             let client_position_change = trades_net_by_position client_trades_booked
             in case net_positions (portfolio h1) None of
                  Inl e \<Rightarrow> Inl e
                | Inr current_positions \<Rightarrow>
                    let client_notional_change = trades_net_by_notional client_trades_booked
                    in case get_current_strategy h1 hedger_time client_notional_change of
                         Inl e \<Rightarrow> Inl e
                       | Inr current_strategy \<Rightarrow>
                           (case get_hedge_quantities h1 current_positions
                                   client_position_change current_strategy of
                              Inl e \<Rightarrow> Inl e
                            | Inr (hedge_quantities, h2) \<Rightarrow>
                                (case place_hedge_orders h2 hedge_quantities hedger_time of
                                   Inl e \<Rightarrow> Inl e
                                 | Inr h3 \<Rightarrow> Inr (hedger_time, h3))))"

text \<open>
  The loop itself: \<^verbatim>\<open>while hedger_time <= self.end_time or len(self.execution_queue) > 0\<close>.
  Comparing with an \<^verbatim>\<open>end_time\<close> that is still \<^verbatim>\<open>None\<close> raises \<^verbatim>\<open>TypeError\<close>.
  The result is the state in which the loop was left.
\<close>

function run_loop :: "datetime \<times> Hedger \<Rightarrow> error + (datetime \<times> Hedger)" where
  "run_loop s =
     (case end_time (snd s) of
        None \<Rightarrow> Inl (TypeError ''<='')
      | Some e \<Rightarrow>
          if fst s \<le> e \<or> length (execution_queue (snd s)) > 0
          then (case cycle s of Inl err \<Rightarrow> Inl err | Inr s' \<Rightarrow> run_loop s')
          else Inr s)"
  by pat_completeness auto

definition run_hedging :: "Hedger \<Rightarrow> error + (datetime \<times> Hedger)" where
  "run_hedging h =
     (case start_time h of
        None \<Rightarrow> Inl (TypeError ''<='')
      | Some hedger_time \<Rightarrow> run_loop (hedger_time, h))"

section \<open>Notions used in the statements\<close>

text \<open>The ledger invariant of a position, and of every position of a book.\<close>

definition ledger_ok :: "Position \<Rightarrow> bool" where
  "ledger_ok p = (pos_quantity p = sum_list (map quantity (trades p)))"

definition book_ok :: "Book \<Rightarrow> bool" where
  "book_ok b = (\<forall>(a, p) \<in> set (positions b). ledger_ok p)"

text \<open>The live quantity a book holds in an asset: 0 without a position.\<close>

definition Book_quantity :: "Book \<Rightarrow> string \<Rightarrow> rat" where
  "Book_quantity b a = (case map_of (positions b) a of None \<Rightarrow> 0 | Some p \<Rightarrow> pos_quantity p)"

text \<open>The trades a book holds in an asset: none without a position.\<close>

definition Book_trades :: "Book \<Rightarrow> string \<Rightarrow> Trade list" where
  "Book_trades b a = (case map_of (positions b) a of None \<Rightarrow> [] | Some p \<Rightarrow> trades p)"

text \<open>What \<^verbatim>\<open>get_positions()\<close> computes for a book when no time is passed.\<close>

definition live_q :: "Book \<Rightarrow> pydict" where
  "live_q b = fold (\<lambda>(a, p) acc. AList.update a (pos_quantity p) acc) (positions b) []"

text \<open>
  The latest time that matters to the loop: the end time or the last client trade,
  whichever is later. It bounds the number of cycles that can still book trades.
\<close>

definition horizon :: "Hedger \<Rightarrow> int" where
  "horizon h = Max (set ((case end_time h of None \<Rightarrow> 0 | Some e \<Rightarrow> e) #
                          map row_trade_time (iterrows (client_trades h))))"

text \<open>
  A hedger whose exchange has a price for every asset it can come to trade: the assets
  of the loaded client trades, of both books and of the queued hedges.
\<close>

definition priced :: "Hedger \<Rightarrow> bool" where
  "priced h =
     (let P = set (map fst (close_prices (exchange h)))
      in client_trades h \<noteq> NoColumns \<and>
         (\<forall>r \<in> set (iterrows (client_trades h)). row_asset r \<in> P) \<and>
         (\<forall>a \<in> set (map fst (positions (client_book h))). a \<in> P) \<and>
         (\<forall>a \<in> set (map fst (positions (hedge_book h))). a \<in> P) \<and>
         (\<forall>m \<in> set (execution_queue h). \<forall>a \<in> set (keys m). a \<in> P))"

text \<open>Example trades and books used to instantiate the theorems.\<close>

definition btc_buy :: Trade where
  "btc_buy = Trade_init ''CLIENT BOOK'' 0 ''BTC'' ''USD'' 2 30000"

definition btc_sell :: Trade where
  "btc_sell = Trade_init ''CLIENT BOOK'' 60 ''BTC'' ''USD'' (- 3) 30000"

definition flat_portfolio :: Portfolio where
  "flat_portfolio =
     \<lparr> pf_name = ''Hedging Portfolio'',
       books = [Book_trade_add (Book_init ''CLIENT BOOK'')
                  (Trade_init ''CLIENT BOOK'' 0 ''BTC'' ''USD'' 10 30000),
                Book_trade_add (Book_init ''HEDGE BOOK'')
                  (Trade_init ''HEDGE BOOK'' 0 ''BTC'' ''USD'' (- 10) 30000)] \<rparr>"

text \<open>
  A hedger loaded with a single client trade of 2 BTC at 30000, and a hedger with one
  STEALTH chunk still queued.
\<close>

definition slow_row :: client_row where
  "slow_row = \<lparr> row_trade_time = 0, row_book = ''CLIENT BOOK'', row_asset = ''BTC'',
                 row_denominated = ''USD'', row_quantity = 2, row_price = 30000,
                 row_notional = 60000 \<rparr>"

definition slow_hedger :: Hedger where
  "slow_hedger = (Hedger_init [(''BTC'', 30000), (''ETH'', 1800)])
                   \<lparr> client_trades := Frame [slow_row], start_time := Some (- 60), end_time := Some 0 \<rparr>"

definition queued_hedger :: Hedger where
  "queued_hedger = (Hedger_init [(''BTC'', 30000), (''ETH'', 1800)])
                     \<lparr> execution_queue := [Dict [(''BTC'', - 80)]] \<rparr>"

text \<open>
  The prices of the repository's test, a row of the loaded client frame, and two
  loaded hedgers: one whose only trades are 400 BTC and 1 ETH at the same time, one
  whose BTC trades cancel while 6000 ETH are bought.
\<close>

definition venue_prices :: pydict where
  "venue_prices = [(''BTC'', 30000), (''ETH'', 1800)]"

definition client_trade :: "datetime \<Rightarrow> string \<Rightarrow> rat \<Rightarrow> rat \<Rightarrow> client_row" where
  "client_trade t a q p =
     \<lparr> row_trade_time = t, row_book = ''CLIENT BOOK'', row_asset = a,
       row_denominated = ''USD'', row_quantity = q, row_price = p, row_notional = q * p \<rparr>"

definition two_asset_feed :: "client_row list" where
  "two_asset_feed = [client_trade 0 ''BTC'' 400 30000, client_trade 0 ''ETH'' 1 1800]"

definition two_asset_hedger :: Hedger where
  "two_asset_hedger =
     (Hedger_init venue_prices)
       \<lparr> client_trades := Frame two_asset_feed, start_time := Some (- 60), end_time := Some 0 \<rparr>"

definition flat_btc_feed :: "client_row list" where
  "flat_btc_feed = [client_trade 0 ''BTC'' 10 30000, client_trade 0 ''BTC'' (- 10) 30000,
                    client_trade 0 ''ETH'' 6000 1800]"

definition flat_btc_hedger :: Hedger where
  "flat_btc_hedger =
     (Hedger_init venue_prices)
       \<lparr> client_trades := Frame flat_btc_feed, start_time := Some (- 60), end_time := Some 0 \<rparr>"

section \<open>The ledger\<close>

lemma trades_fold: "trades (fold (\<lambda>t p. Position_trade_add p t) ts p) = trades p @ ts"
  by (induction ts arbitrary: p) (simp_all add: Position_trade_add_def)

lemma quantity_fold: "pos_quantity (fold (\<lambda>t p. Position_trade_add p t) ts p) = pos_quantity p + sum_list (map quantity ts)"
  by (induction ts arbitrary: p) (simp_all add: Position_trade_add_def)

lemma ledger_ok_init: "ledger_ok (Position_init a)"
  by (simp add: ledger_ok_def Position_init_def)

lemma ledger_ok_add: "ledger_ok p \<Longrightarrow> ledger_ok (Position_trade_add p t)"
  by (simp add: ledger_ok_def Position_trade_add_def)

lemma set_update_cases: "x \<in> set (AList.update k v al) \<Longrightarrow> x = (k, v) \<or> x \<in> set al"
  by (induction al) (auto split: if_splits)

lemma book_ok_add: "book_ok b \<Longrightarrow> book_ok (Book_trade_add b t)"
  unfolding book_ok_def Book_trade_add_def Let_def
  by (auto split: option.splits if_splits dest!: set_update_cases map_of_SomeD 
      intro: ledger_ok_add ledger_ok_init simp: AList.update_conv')

lemma book_ok_fold: "book_ok b \<Longrightarrow> book_ok (fold (\<lambda>t b. Book_trade_add b t) ts b)"
  by (induction ts arbitrary: b) (simp_all add: book_ok_add)

lemma get_positions_loop_None:
  "get_positions_loop ps None acc = Inr (fold (\<lambda>(a, p) acc. AList.update a (pos_quantity p) acc) ps acc)"
  by (induction ps arbitrary: acc) (auto simp: Position_get_quantity_def)

lemma update_fresh: "k \<notin> fst ` set al \<Longrightarrow> AList.update k v al = al @ [(k, v)]"
  by (induction al) auto

lemma fold_update_distinct:
  "distinct (map fst ps) \<Longrightarrow> fst ` set ps \<inter> fst ` set acc = {} \<Longrightarrow>
   fold (\<lambda>(a, p) acc. AList.update a (f p) acc) ps acc = acc @ map (\<lambda>(a, p). (a, f p)) ps"
proof (induction ps arbitrary: acc)
  case Nil
  then show ?case by simp
next
  case (Cons x ps)
  obtain a p where x: "x = (a, p)" by (cases x)
  from Cons.prems have fresh: "a \<notin> fst ` set acc" by (auto simp: x)
  have "fst ` set ps \<inter> fst ` set (acc @ [(a, f p)]) = {}"
    using Cons.prems by (auto simp: x)
  with Cons.IH[of "acc @ [(a, f p)]"] Cons.prems fresh show ?case
    by (simp add: x update_fresh)
qed

lemma get0_update: "get0 (AList.update k v al) a = (if a = k then v else get0 al a)"
  by (simp add: get0_def AList.update_conv')

lemma get0_counter_update:
  "get0 (counter_update c other) a = get0 c a + sum_list (map snd (filter (\<lambda>kv. fst kv = a) other))"
  unfolding counter_update_def
  by (induction other arbitrary: c) (auto simp: get0_update)

lemma keys_counter_update:
  "fst ` set (counter_update c other) = fst ` set c \<union> fst ` set other"
  unfolding counter_update_def
proof (induction other arbitrary: c)
  case Nil
  then show ?case by simp
next
  case (Cons x other)
  obtain k v where x: "x = (k, v)" by (cases x)
  show ?case
    using Cons.IH[of "AList.update k (v + get0 c k) c"]
    by (simp add: x AList.dom_update)
qed

lemma sum_filter_distinct:
  "distinct (map fst ps) \<Longrightarrow>
   sum_list (map snd (filter (\<lambda>kv. fst kv = a) (map (\<lambda>(a, p). (a, f p)) ps))) =
     (case map_of ps a of None \<Rightarrow> 0 | Some p \<Rightarrow> f p)"
proof (induction ps)
  case Nil
  then show ?case by simp
next
  case (Cons x ps)
  obtain k p where x: "x = (k, p)" by (cases x)
  show ?case
  proof (cases "k = a")
    case True
    with Cons.prems have "a \<notin> fst ` set ps" by (auto simp: x)
    then have "filter (\<lambda>kv. fst kv = a) (map (\<lambda>(a, p). (a, f p)) ps) = []"
      by (force simp: filter_empty_conv)
    with True show ?thesis by (simp add: x)
  next
    case False
    with Cons show ?thesis by (simp add: x)
  qed
qed

lemma Book_trade_add_keys:
  "fst ` set (positions (Book_trade_add b t)) = insert (asset t) (fst ` set (positions b))"
  unfolding Book_trade_add_def Let_def
  by (auto simp: AList.dom_update AList.update_conv' split: option.splits if_splits)

lemma Book_trade_add_distinct:
  "distinct (map fst (positions b)) \<Longrightarrow> distinct (map fst (positions (Book_trade_add b t)))"
  unfolding Book_trade_add_def Let_def
  by (auto simp: AList.distinct_update split: option.splits)

section \<open>Netting\<close>

lemma asset_Trade_init [simp]: "asset (Trade_init b t a d q p) = a"
  by (simp add: Trade_init_def)

lemma quantity_Trade_init [simp]: "quantity (Trade_init b t a d q p) = q"
  by (simp add: Trade_init_def)

lemma keys_fold_book_row:
  "fst ` set (positions (fold book_row rows b)) = fst ` set (positions b) \<union> row_asset ` set rows"
  by (induction rows arbitrary: b) (auto simp: book_row_def Book_trade_add_keys)

lemma Book_get_positions_live: "Book_get_positions b None = Inr (Dict (live_q b))"
  by (simp add: Book_get_positions_def get_positions_loop_None live_q_def)

lemma keys_fold_update:
  "fst ` set (fold (\<lambda>(a, p) acc. AList.update a (f p) acc) ps acc) = fst ` set acc \<union> fst ` set ps"
proof (induction ps arbitrary: acc)
  case Nil
  then show ?case by simp
next
  case (Cons x ps)
  obtain a p where x: "x = (a, p)" by (cases x)
  show ?case using Cons.IH[of "AList.update a (f p) acc"]
    by (simp add: x AList.dom_update)
qed

lemma keys_live_q: "fst ` set (live_q b) = fst ` set (positions b)"
  by (simp add: live_q_def keys_fold_update)

lemma net_positions_loop_live:
  "net_positions_loop bs None (Counter c) =
     Inr (Counter (fold (\<lambda>b c. counter_update c (live_q b)) bs c))"
  by (induction bs arbitrary: c) (simp_all add: Book_get_positions_live)

lemma keys_fold_counter_live:
  "fst ` set (fold (\<lambda>b c. counter_update c (live_q b)) bs c) =
     fst ` set c \<union> (\<Union>b\<in>set bs. fst ` set (positions b))"
  by (induction bs arbitrary: c) (simp_all add: keys_counter_update keys_live_q Un_assoc)

lemma net_positions_live:
  "\<exists>c. net_positions pf None = Inr (Counter c) \<and>
       fst ` set c = (\<Union>b\<in>set (books pf). fst ` set (positions b))"
  by (simp add: net_positions_def net_positions_loop_live keys_fold_counter_live)

lemma get_current_strategy_loaded:
  assumes "client_trades h \<noteq> NoColumns"
  shows "\<exists>s \<in> set SUPPORTED_STRATEGIES. get_current_strategy h t n = Inr s"
proof -
  from assms obtain rows where "client_trades h = Frame rows" by (cases "client_trades h") auto
  then show ?thesis
    by (simp add: get_current_strategy_def recent_client_volume_def time_window_def
        client_trades_by_time_def Let_def SUPPORTED_STRATEGIES_def)
qed

lemma fold_py_update_Counter:
  "fold (\<lambda>row net. py_update net (Dict [(k row, v row)])) rows (Counter c) =
     Counter (fold (\<lambda>row c. counter_update c [(k row, v row)]) rows c)"
  by (induction rows arbitrary: c) simp_all

lemma keys_fold_counter_rows:
  "fst ` set (fold (\<lambda>row c. counter_update c [(k row, v row)]) rows c) =
     fst ` set c \<union> k ` set rows"
  by (induction rows arbitrary: c) (simp_all add: keys_counter_update Un_assoc)

lemma keys_trades_net_by_position:
  "fst ` set (items (trades_net_by_position f)) = row_asset ` set (iterrows f)"
  unfolding trades_net_by_position_def fold_py_update_Counter
  by (simp add: keys_fold_counter_rows)

lemma keys_normal:
  "fst ` set (items (get_hedge_quantities_normal m)) \<subseteq> fst ` set (items m)"
proof -
  have "\<And>acc. fst ` set (fold (\<lambda>(a, current_position) hedge_quantities.
                   if current_position \<noteq> 0
                   then AList.update a ((- 1) * current_position) hedge_quantities
                   else hedge_quantities) ps acc) \<subseteq> fst ` set acc \<union> fst ` set ps" for ps :: pydict
  proof (induction ps)
    case Nil
    then show ?case by simp
  next
    case (Cons x ps)
    obtain a q where x: "x = (a, q)" by (cases x)
    show ?case
      using Cons[of "AList.update a (- q) acc"] Cons[of acc]
      by (auto simp: x AList.dom_update)
  qed
  from this[of "items m" "[]"] show ?thesis
    by (simp add: get_hedge_quantities_normal_def)
qed

section \<open>One cycle\<close>

lemma book_client_trades_fields:
  "book_client_trades h a b = Inr (f, h1) \<Longrightarrow>
     client_trades h1 = client_trades h \<and> end_time h1 = end_time h \<and>
     execution_queue h1 = execution_queue h \<and> exchange h1 = exchange h \<and>
     hedge_book h1 = hedge_book h \<and>
     f = Frame (filter (\<lambda>r. row_trade_time r > a \<and> row_trade_time r \<le> b) (iterrows (client_trades h)))"
  by (auto simp: book_client_trades_def client_trades_by_time_def split: sum.splits frame.splits)

lemma get_hedge_quantities_fields:
  "get_hedge_quantities h cur ch s = Inr (hq, h2) \<Longrightarrow>
     client_trades h2 = client_trades h \<and> end_time h2 = end_time h \<and>
     exchange h2 = exchange h \<and> hedge_book h2 = hedge_book h \<and> client_book h2 = client_book h"
  by (auto simp: get_hedge_quantities_def split: if_splits list.splits)

lemma get_hedge_quantities_pop:
  "get_hedge_quantities h cur ch s = Inr (hq, h2) \<Longrightarrow> s \<noteq> STRATEGY_STEALTH \<Longrightarrow>
     execution_queue h2 = tl (execution_queue h)"
  by (auto simp: get_hedge_quantities_def split: if_splits list.splits)

lemma place_orders_loop_fields:
  "place_orders_loop ps t h = Inr h3 \<Longrightarrow>
     client_trades h3 = client_trades h \<and> end_time h3 = end_time h \<and>
     exchange h3 = exchange h \<and> execution_queue h3 = execution_queue h \<and>
     client_book h3 = client_book h"
  by (induction ps t h rule: place_orders_loop.induct) (auto split: sum.splits)

lemma trades_net_by_notional_empty: "trades_net_by_notional (Frame []) = Counter []"
  by (simp add: trades_net_by_notional_def)

lemma no_stealth_without_flow: "get_current_strategy h t (Counter []) \<noteq> Inr STRATEGY_STEALTH"
  by (auto simp: get_current_strategy_def values_of_def client_volume_trigger_def
        STRATEGY_STEALTH_def STRATEGY_SLOW_def STRATEGY_NORMAL_def split: sum.splits)

lemma cycle_steps:
  assumes "cycle (t, h) = Inr (t', h')"
  obtains f h1 cur strat hq h2 where
    "book_client_trades h t (t + minutes 1) = Inr (f, h1)"
    "net_positions (portfolio h1) None = Inr cur"
    "get_current_strategy h1 (t + minutes 1) (trades_net_by_notional f) = Inr strat"
    "get_hedge_quantities h1 cur (trades_net_by_position f) strat = Inr (hq, h2)"
    "place_hedge_orders h2 hq (t + minutes 1) = Inr h'"
    "t' = t + minutes 1"
proof -
  let ?t1 = "t + minutes 1"
  note c = assms[unfolded cycle_def Let_def fst_conv snd_conv]
  obtain f h1 where b: "book_client_trades h t ?t1 = Inr (f, h1)"
    using c by (cases "book_client_trades h t ?t1") auto
  note c = c[unfolded b sum.case prod.case]
  obtain cur where n: "net_positions (portfolio h1) None = Inr cur"
    using c by (cases "net_positions (portfolio h1) None") auto
  note c = c[unfolded n sum.case]
  obtain strat where s: "get_current_strategy h1 ?t1 (trades_net_by_notional f) = Inr strat"
    using c by (cases "get_current_strategy h1 ?t1 (trades_net_by_notional f)") auto
  note c = c[unfolded s sum.case]
  obtain hq h2 where g: "get_hedge_quantities h1 cur (trades_net_by_position f) strat = Inr (hq, h2)"
    using c by (cases "get_hedge_quantities h1 cur (trades_net_by_position f) strat") auto
  note c = c[unfolded g sum.case prod.case]
  have p: "place_hedge_orders h2 hq ?t1 = Inr h' \<and> t' = ?t1"
    using c by (cases "place_hedge_orders h2 hq ?t1") auto
  from b n s g p that show thesis by blast
qed

lemma cycle_fields:
  assumes "cycle (t, h) = Inr (t', h')"
  shows "t' = t + 60" "client_trades h' = client_trades h" "end_time h' = end_time h"
    "exchange h' = exchange h"
proof -
  from assms obtain f h1 cur strat hq h2 where
    b: "book_client_trades h t (t + minutes 1) = Inr (f, h1)" and
    g: "get_hedge_quantities h1 cur (trades_net_by_position f) strat = Inr (hq, h2)" and
    p: "place_hedge_orders h2 hq (t + minutes 1) = Inr h'" and
    t: "t' = t + minutes 1"
    by (rule cycle_steps)
  note b' = book_client_trades_fields[OF b]
  note g' = get_hedge_quantities_fields[OF g]
  note p' = place_orders_loop_fields[OF p[unfolded place_hedge_orders_def]]
  show "t' = t + 60" using t by (simp add: minutes_def)
  show "client_trades h' = client_trades h" using b' g' p' by simp
  show "end_time h' = end_time h" using b' g' p' by simp
  show "exchange h' = exchange h" using b' g' p' by simp
qed

lemma cycle_pop:
  assumes "cycle (t, h) = Inr (t', h')"
    and "\<forall>r \<in> set (iterrows (client_trades h)). row_trade_time r \<le> t"
  shows "execution_queue h' = tl (execution_queue h)"
proof -
  from assms(1) obtain f h1 cur strat hq h2 where
    b: "book_client_trades h t (t + minutes 1) = Inr (f, h1)" and
    s: "get_current_strategy h1 (t + minutes 1) (trades_net_by_notional f) = Inr strat" and
    g: "get_hedge_quantities h1 cur (trades_net_by_position f) strat = Inr (hq, h2)" and
    p: "place_hedge_orders h2 hq (t + minutes 1) = Inr h'"
    by (rule cycle_steps)
  note b' = book_client_trades_fields[OF b]
  have "filter (\<lambda>r. row_trade_time r > t \<and> row_trade_time r \<le> t + minutes 1)
          (iterrows (client_trades h)) = []"
    using assms(2) by (force simp: filter_empty_conv)
  with b' have "f = Frame []" by simp
  with s have "strat \<noteq> STRATEGY_STEALTH"
    using no_stealth_without_flow[of h1 "t + minutes 1"] by (auto simp: trades_net_by_notional_empty)
  with g have "execution_queue h2 = tl (execution_queue h1)"
    by (rule get_hedge_quantities_pop)
  moreover from b' have "execution_queue h1 = execution_queue h" by simp
  moreover from p have "execution_queue h' = execution_queue h2"
    by (auto simp: place_hedge_orders_def dest!: place_orders_loop_fields)
  ultimately show ?thesis by simp
qed

lemma set_concat_zip_star: "set (concat (zip_star xss)) \<subseteq> (\<Union>xs \<in> set xss. set xs)"
proof (induction xss rule: zip_star.induct)
  case (1 xss)
  show ?case
  proof (cases "xss = [] \<or> (\<exists>xs \<in> set xss. xs = [])")
    case True
    then show ?thesis by (subst zip_star.simps) simp
  next
    case False
    have hd_in: "set (map hd xss) \<subseteq> (\<Union>xs \<in> set xss. set xs)"
    proof
      fix x assume "x \<in> set (map hd xss)"
      then obtain xs where xs: "xs \<in> set xss" "x = hd xs" by auto
      with False have "xs \<noteq> []" by auto
      then have "hd xs \<in> set xs" by (rule hd_in_set)
      with xs show "x \<in> (\<Union>xs \<in> set xss. set xs)" by blast
    qed
    have "(\<Union>xs \<in> set (map tl xss). set xs) \<subseteq> (\<Union>xs \<in> set xss. set xs)"
    proof
      fix x assume "x \<in> (\<Union>xs \<in> set (map tl xss). set xs)"
      then obtain xs where xs: "xs \<in> set xss" "x \<in> set (tl xs)" by auto
      with False have "xs \<noteq> []" by auto
      with xs(2) have "x \<in> set xs" by (simp add: list.set_sel(2))
      with xs show "x \<in> (\<Union>xs \<in> set xss. set xs)" by blast
    qed
    with 1[OF False] have "set (concat (zip_star (map tl xss))) \<subseteq> (\<Union>xs \<in> set xss. set xs)"
      by blast
    with hd_in False show ?thesis
      by (subst zip_star.simps) simp
  qed
qed

lemma fold_update_values:
  "(k, v) \<in> set (fold (\<lambda>(a, q) acc. AList.update a (f a q) acc) ps acc) \<Longrightarrow>
     (k, v) \<in> set acc \<or> (\<exists>q. (k, q) \<in> set ps \<and> v = f k q)"
proof (induction ps arbitrary: acc)
  case Nil
  then show ?case by simp
next
  case (Cons x ps)
  obtain a q where x: "x = (a, q)" by (cases x)
  from Cons.prems have "(k, v) \<in> set (fold (\<lambda>(a, q) acc. AList.update a (f a q) acc) ps (AList.update a (f a q) acc))"
    by (simp add: x)
  from Cons.IH[OF this] show ?case
    by (auto simp: x dest: set_update_cases)
qed

lemma stealth_entry:
  assumes "m \<in> set (get_hedge_quantities_stealth cur)"
  shows "\<exists>a q v. (a, q) \<in> set (items cur) \<and> m = Dict [(a, v)]"
proof -
  define by_asset where
    "by_asset = fold (\<lambda>(a, q) by_asset. AList.update a (stealth_chunks a q) by_asset) (items cur) []"
  from assms have "m \<in> set (concat (zip_star (map snd by_asset)))"
    by (simp add: get_hedge_quantities_stealth_def by_asset_def)
  with set_concat_zip_star[of "map snd by_asset"]
  have "m \<in> (\<Union>xs \<in> set (map snd by_asset). set xs)" by blast
  then obtain xs where xs: "xs \<in> snd ` set by_asset" "m \<in> set xs" by auto
  then obtain k where k: "(k, xs) \<in> set by_asset" by force
  from fold_update_values[OF k[unfolded by_asset_def]]
  obtain q where q: "(k, q) \<in> set (items cur)" "xs = stealth_chunks k q"
    by auto
  from xs(2) q(2) obtain v where "m = Dict [(k, v)]"
    by (auto simp: stealth_chunks_def Let_def)
  with q(1) show ?thesis by blast
qed

lemma keys_dict_update:
  "fst ` set (dict_update d other) = fst ` set d \<union> fst ` set other"
  unfolding dict_update_def
proof (induction other arbitrary: d)
  case Nil
  then show ?case by simp
next
  case (Cons x other)
  obtain k v where x: "x = (k, v)" by (cases x)
  show ?case using Cons.IH[of "AList.update k v d"]
    by (simp add: x AList.dom_update)
qed

lemma keys_py_update:
  "fst ` set (items (py_update m other)) = fst ` set (items m) \<union> fst ` set (items other)"
  by (cases m) (simp_all add: keys_dict_update keys_counter_update)

lemma get_hedge_quantities_priced:
  assumes s: "s \<in> set SUPPORTED_STRATEGIES"
    and q: "\<forall>m \<in> set (execution_queue h). fst ` set (items m) \<subseteq> P"
    and cur: "fst ` set (items cur) \<subseteq> P"
    and ch: "fst ` set (items ch) \<subseteq> P"
  shows "\<exists>hq h2. get_hedge_quantities h cur ch s = Inr (hq, h2) \<and>
           fst ` set (items hq) \<subseteq> P \<and>
           (\<forall>m \<in> set (execution_queue h2). fst ` set (items m) \<subseteq> P)"
proof -
  define hq0 where "hq0 = (if s = STRATEGY_NORMAL then get_hedge_quantities_normal ch else Counter [])"
  define h1 where "h1 = (if s = STRATEGY_STEALTH
     then h\<lparr> execution_queue := execution_queue h @ get_hedge_quantities_stealth cur \<rparr> else h)"
  have hq0: "fst ` set (items hq0) \<subseteq> P"
    using keys_normal[of ch] ch by (auto simp: hq0_def)
  have "\<forall>m \<in> set (get_hedge_quantities_stealth cur). fst ` set (items m) \<subseteq> P"
  proof
    fix m assume "m \<in> set (get_hedge_quantities_stealth cur)"
    from stealth_entry[OF this] obtain a q v where "(a, q) \<in> set (items cur)" "m = Dict [(a, v)]"
      by blast
    with cur show "fst ` set (items m) \<subseteq> P" by force
  qed
  with q have q1: "\<forall>m \<in> set (execution_queue h1). fst ` set (items m) \<subseteq> P"
    by (auto simp: h1_def)
  have mid: "(if s = STRATEGY_NORMAL
              then Inr (get_hedge_quantities_normal ch, h)
              else if s = STRATEGY_SLOW
              then Inr (Counter [], h)
              else if s = STRATEGY_STEALTH
              then Inr (Counter [],
                        h\<lparr> execution_queue :=
                             execution_queue h @ get_hedge_quantities_stealth cur \<rparr>)
              else Inl (Exception (''Unimplemented strategy '' @ s))) = Inr (hq0, h1)"
    using s by (auto simp: hq0_def h1_def SUPPORTED_STRATEGIES_def STRATEGY_NORMAL_def
        STRATEGY_SLOW_def STRATEGY_STEALTH_def)
  have g: "get_hedge_quantities h cur ch s =
        (case execution_queue h1 of
                [] \<Rightarrow> Inr (hq0, h1)
              | front # rest \<Rightarrow>
                  Inr (py_update hq0 front, h1\<lparr> execution_queue := rest \<rparr>))"
    unfolding get_hedge_quantities_def mid using s by simp
  show ?thesis
  proof (cases "execution_queue h1")
    case Nil
    with g hq0 q1 show ?thesis by simp
  next
    case (Cons front rest)
    with q1 have "fst ` set (items front) \<subseteq> P" "\<forall>m \<in> set rest. fst ` set (items m) \<subseteq> P"
      by simp_all
    with g hq0 Cons show ?thesis by (simp add: keys_py_update)
  qed
qed

lemma place_orders_loop_priced:
  assumes "fst ` set ps \<subseteq> fst ` set (close_prices (exchange h))"
    and "fst ` set (positions (hedge_book h)) \<subseteq> fst ` set (close_prices (exchange h))"
  shows "\<exists>h3. place_orders_loop ps t h = Inr h3 \<and>
           fst ` set (positions (hedge_book h3)) \<subseteq> fst ` set (close_prices (exchange h))"
  using assms
proof (induction ps t h rule: place_orders_loop.induct)
  case (1 trade_t h)
  then show ?case by simp
next
  case (2 a q rest trade_t h)
  from "2.prems"(1) have "a \<in> fst ` set (close_prices (exchange h))" by simp
  then obtain p where p: "map_of (close_prices (exchange h)) a = Some p"
    by (metis domD dom_map_of_conv_image_fst)
  let ?tr = "Trade_init (book_name (hedge_book h)) trade_t a ''USD'' q p"
  let ?h = "h\<lparr> hedge_book := Book_trade_add (hedge_book h) ?tr \<rparr>"
  have am: "at_market_order (exchange h) (book_name (hedge_book h)) a q trade_t = Inr ?tr"
    by (simp add: at_market_order_def p)
  have "fst ` set rest \<subseteq> fst ` set (close_prices (exchange ?h))"
    using "2.prems"(1) by simp
  moreover have "fst ` set (positions (hedge_book ?h)) \<subseteq> fst ` set (close_prices (exchange ?h))"
    using "2.prems" by (simp add: Book_trade_add_keys)
  ultimately obtain h3 where "place_orders_loop rest trade_t ?h = Inr h3"
    "fst ` set (positions (hedge_book h3)) \<subseteq> fst ` set (close_prices (exchange ?h))"
    using "2.IH"[OF am] by blast
  then show ?case by (simp add: am)
qed

section \<open>Termination of the loop\<close>

lemma horizon_ge_end: "end_time h = Some e \<Longrightarrow> e \<le> horizon h"
  unfolding horizon_def by (intro Max_ge) auto

lemma horizon_ge_row: "r \<in> set (iterrows (client_trades h)) \<Longrightarrow> row_trade_time r \<le> horizon h"
  unfolding horizon_def by (intro Max_ge) auto

lemma run_loop_decreases:
  assumes e: "end_time h = Some e"
    and c: "t \<le> e \<or> execution_queue h \<noteq> []"
    and cy: "cycle (t, h) = Inr (t', h')"
  shows "nat (horizon h' + 1 - t') < nat (horizon h + 1 - t) \<or>
         (nat (horizon h' + 1 - t') = nat (horizon h + 1 - t) \<and>
          length (execution_queue h') < length (execution_queue h))"
proof -
  note f = cycle_fields[OF cy]
  have hz: "horizon h' = horizon h" by (simp add: horizon_def f)
  have ge: "e \<le> horizon h" using e by (rule horizon_ge_end)
  show ?thesis
  proof (cases "t \<le> horizon h")
    case True
    then show ?thesis unfolding hz f(1) by linarith
  next
    case False
    have "\<forall>r \<in> set (iterrows (client_trades h)). row_trade_time r \<le> t"
    proof
      fix r assume "r \<in> set (iterrows (client_trades h))"
      then have "row_trade_time r \<le> horizon h" by (rule horizon_ge_row)
      with False show "row_trade_time r \<le> t" by linarith
    qed
    from cycle_pop[OF cy this] have q: "execution_queue h' = tl (execution_queue h)" .
    from False ge c have ne: "execution_queue h \<noteq> []" by linarith
    then have "length (tl (execution_queue h)) < length (execution_queue h)" by simp
    with False show ?thesis unfolding hz f(1) q by simp
  qed
qed

termination run_loop
proof (relation "measures [\<lambda>s. nat (horizon (snd s) + 1 - fst s), \<lambda>s. length (execution_queue (snd s))]")
  show "wf (measures [\<lambda>s. nat (horizon (snd s) + 1 - fst s), \<lambda>s. length (execution_queue (snd s))])"
    by simp
next
  fix s :: "datetime \<times> Hedger" and e s'
  assume e: "end_time (snd s) = Some e"
    and c: "fst s \<le> e \<or> 0 < length (execution_queue (snd s))"
    and s': "cycle s = Inr s'"
  from s' have cy: "cycle (fst s, snd s) = Inr (fst s', snd s')" by simp
  from c have c': "fst s \<le> e \<or> execution_queue (snd s) \<noteq> []" by simp
  from run_loop_decreases[OF e c' cy]
  show "(s', s) \<in> measures [\<lambda>s. nat (horizon (snd s) + 1 - fst s), \<lambda>s. length (execution_queue (snd s))]"
    by simp
qed

declare run_loop.simps [simp del]

section \<open>Claims about the ledger\<close>

lemma live_q_distinct:
  "distinct (map fst (positions b)) \<Longrightarrow>
   live_q b = map (\<lambda>(a, p). (a, pos_quantity p)) (positions b)"
  by (simp add: live_q_def fold_update_distinct)

lemma get0_fold_counter_live:
  "\<forall>b\<in>set bs. distinct (map fst (positions b)) \<Longrightarrow>
   get0 (fold (\<lambda>b c. counter_update c (live_q b)) bs c) a =
     get0 c a + (\<Sum>b\<leftarrow>bs. Book_quantity b a)"
  by (induction bs arbitrary: c)
     (simp_all add: get0_counter_update live_q_distinct sum_filter_distinct Book_quantity_def)

lemma keys_book_trades:
  "fst ` set (positions (fold (\<lambda>t b. Book_trade_add b t) ts b)) = fst ` set (positions b) \<union> asset ` set ts"
  by (induction ts arbitrary: b) (auto simp: Book_trade_add_keys)

lemma distinct_book_trades:
  "distinct (map fst (positions b)) \<Longrightarrow>
   distinct (map fst (positions (fold (\<lambda>t b. Book_trade_add b t) ts b)))"
  by (induction ts arbitrary: b) (simp_all add: Book_trade_add_distinct)

text \<open>
  C4. After any sequence of calls to \<^verbatim>\<open>Position.trade_add\<close> on a new Position, its
  quantity attribute is the sum of the quantities of the trades in its list; and after
  any sequence of calls to \<^verbatim>\<open>Book.trade_add\<close> on a new Book, the same holds of every
  position of the book. The sequence is arbitrary, so this is the state after every
  booking.
\<close>

theorem ledger_invariant:
  "pos_quantity (fold (\<lambda>t p. Position_trade_add p t) ts (Position_init a)) =
     sum_list (map quantity (trades (fold (\<lambda>t p. Position_trade_add p t) ts (Position_init a)))) \<and>
   (\<forall>(k, p) \<in> set (positions (fold (\<lambda>t b. Book_trade_add b t) ts (Book_init n))).
      pos_quantity p = sum_list (map quantity (trades p)))"
proof
  show "pos_quantity (fold (\<lambda>t p. Position_trade_add p t) ts (Position_init a)) =
     sum_list (map quantity (trades (fold (\<lambda>t p. Position_trade_add p t) ts (Position_init a))))"
    by (simp add: trades_fold quantity_fold Position_init_def)
next
  have "book_ok (Book_init n)" by (simp add: book_ok_def Book_init_def)
  then have "book_ok (fold (\<lambda>t b. Book_trade_add b t) ts (Book_init n))" by (rule book_ok_fold)
  then show "\<forall>(k, p) \<in> set (positions (fold (\<lambda>t b. Book_trade_add b t) ts (Book_init n))).
      pos_quantity p = sum_list (map quantity (trades p))"
    by (simp add: book_ok_def ledger_ok_def)
qed

theorem ledger_invariant_witness:
  "positions (fold (\<lambda>t b. Book_trade_add b t) [btc_buy, btc_sell] (Book_init ''CLIENT BOOK'')) =
     [(''BTC'', \<lparr> pos_asset = ''BTC'', pos_quantity = - 1, trades = [btc_buy, btc_sell] \<rparr>)] \<and>
   pos_quantity (fold (\<lambda>t p. Position_trade_add p t) [btc_buy, btc_sell] (Position_init ''BTC'')) =
     sum_list (map quantity (trades (fold (\<lambda>t p. Position_trade_add p t) [btc_buy, btc_sell] (Position_init ''BTC'')))) \<and>
   list_all (\<lambda>(k, p). pos_quantity p = sum_list (map quantity (trades p)))
     (positions (fold (\<lambda>t b. Book_trade_add b t) [btc_buy, btc_sell] (Book_init ''CLIENT BOOK'')))"
  using ledger_invariant [of "[btc_buy, btc_sell]" "''BTC''" "''CLIENT BOOK''"]
  by (simp add: list_all_iff Book_trade_add_def Book_init_def Position_init_def Position_trade_add_def
      btc_buy_def btc_sell_def Trade_init_def Let_def)

text \<open>
  C5. The Counter returned by \<^verbatim>\<open>Portfolio.net_positions()\<close> reads, at every asset, as
  the sum over the books of the portfolio of the quantity the book holds in the asset
  (0 for a book without a position in it), and the asset is a key of the Counter
  exactly when some book has a position in it, whatever the sum is. The keys of a
  book's dict are distinct, as the keys of a Python dict are.
\<close>

theorem net_positions_additive:
  assumes "\<forall>b\<in>set (books pf). distinct (map fst (positions b))"
  shows "\<exists>c. net_positions pf None = Inr (Counter c) \<and>
           get0 c a = (\<Sum>b\<leftarrow>books pf. Book_quantity b a) \<and>
           (a \<in> set (map fst c) \<longleftrightarrow> (\<exists>b\<in>set (books pf). a \<in> set (map fst (positions b))))"
proof -
  let ?c = "fold (\<lambda>b c. counter_update c (live_q b)) (books pf) []"
  have 1: "net_positions pf None = Inr (Counter ?c)"
    by (simp add: net_positions_def net_positions_loop_live)
  have 2: "get0 ?c a = (\<Sum>b\<leftarrow>books pf. Book_quantity b a)"
    using get0_fold_counter_live[OF assms, of "[]" a] by (simp add: get0_def)
  have 3: "a \<in> set (map fst ?c) \<longleftrightarrow> (\<exists>b\<in>set (books pf). a \<in> set (map fst (positions b)))"
    using keys_fold_counter_live[of "books pf" "[]"] by auto
  from 1 2 3 show ?thesis by blast
qed

theorem net_positions_additive_witness:
  "list_all (\<lambda>b. distinct (map fst (positions b))) (books flat_portfolio) \<and>
   net_positions flat_portfolio None = Inr (Counter [(''BTC'', 0)]) \<and>
   (\<exists>c. net_positions flat_portfolio None = Inr (Counter c) \<and>
        get0 c ''BTC'' = (\<Sum>b\<leftarrow>books flat_portfolio. Book_quantity b ''BTC'') \<and>
        (''BTC'' \<in> set (map fst c) \<longleftrightarrow>
           (\<exists>b\<in>set (books flat_portfolio). ''BTC'' \<in> set (map fst (positions b)))))"
proof -
  have d: "\<forall>b\<in>set (books flat_portfolio). distinct (map fst (positions b))"
    by code_simp
  have v: "net_positions flat_portfolio None = Inr (Counter [(''BTC'', 0)])"
    by code_simp
  from net_positions_additive [OF d, of "''BTC''"] d v show ?thesis
    by (simp add: list_all_iff)
qed


text \<open>
  \<^verbatim>\<open>get_quantity\<close> with a time recomputes from the trade list: for a position
  with at least one trade it returns the sum of the quantities of the trades with
  \<^verbatim>\<open>trade_time <= as_of_time\<close>, so two times with no trade time between them
  (\<open>t1 < trade_time \<le> t2\<close>) give the same quantity.
\<close>

lemma get_quantity_as_of:
  "trades p \<noteq> [] \<Longrightarrow>
   Position_get_quantity p (Some t) =
     Inr (sum_list (map quantity (filter (\<lambda>r. trade_time r \<le> t) (trades p))))"
  by (simp add: Position_get_quantity_def Position_get_trades_def get_trades_as_dataframe_def)

lemma get_quantity_stable:
  assumes "trades p \<noteq> []" and "t1 \<le> t2"
    and "\<forall>r \<in> set (trades p). \<not> (t1 < trade_time r \<and> trade_time r \<le> t2)"
  shows "Position_get_quantity p (Some t1) = Position_get_quantity p (Some t2)"
proof -
  have "filter (\<lambda>r. trade_time r \<le> t1) (trades p) = filter (\<lambda>r. trade_time r \<le> t2) (trades p)"
    using assms(2,3) by (intro filter_cong) auto
  with assms(1) show ?thesis by (simp add: get_quantity_as_of)
qed

text \<open>
  C6 at a Position that has no trade yet: the frame of its trades has no column, and
  the query with a time raises \<^verbatim>\<open>KeyError\<close> instead of returning 0, the sum over no
  trades.
\<close>

theorem get_quantity_empty_position:
  "Position_get_quantity (Position_init ''BTC'') (Some 0) = Inl (KeyError ''trade_time'')"
  by (simp add: Position_get_quantity_def Position_get_trades_def get_trades_as_dataframe_def
      Position_init_def)

text \<open>
  For a position with at least one trade that satisfies the ledger invariant, the
  cached total and the recomputation agree at every time that covers all its trades.
\<close>

lemma get_quantity_covering:
  assumes "trades p \<noteq> []" and "ledger_ok p" and "\<forall>r \<in> set (trades p). trade_time r \<le> t"
  shows "Position_get_quantity p None = Position_get_quantity p (Some t)"
proof -
  have "filter (\<lambda>r. trade_time r \<le> t) (trades p) = trades p"
    using assms(3) by (simp add: filter_id_conv)
  with assms(1,2) show ?thesis
    by (simp add: get_quantity_as_of) (simp add: Position_get_quantity_def ledger_ok_def)
qed

text \<open>
  C10 at a new Position, where every time covers all its trades: the cached total is 0
  and the recomputation raises \<^verbatim>\<open>KeyError\<close>.
\<close>

theorem cached_and_recomputed_empty_position:
  "Position_get_quantity (Position_init ''ETH'') None = Inr 0 \<and>
   Position_get_quantity (Position_init ''ETH'') (Some 0) = Inl (KeyError ''trade_time'')"
  by (simp add: Position_get_quantity_def Position_get_trades_def get_trades_as_dataframe_def
      Position_init_def)

section \<open>Claims about the strategies\<close>

lemma slow_hedger_loaded:
  "load_client_trades [slow_row] (Hedger_init [(''BTC'', 30000), (''ETH'', 1800)]) = Some slow_hedger"
  by (simp add: load_client_trades_def slow_hedger_def slow_row_def minutes_def)

text \<open>
  C3. If the notional of the client trades in the window
  \<open>hedger_time - time_window minutes < trade_time \<le> hedger_time\<close> sums to less than
  \<^const>\<open>client_volume_max\<close>, \<^verbatim>\<open>get_current_strategy\<close> returns SLOW, whatever the
  notional change passed to it.
\<close>

theorem slow_dominates:
  assumes "client_trades h = Frame rows"
    and "sum_list (map row_notional
           (filter (\<lambda>r. hedger_time - minutes time_window < row_trade_time r \<and>
                        row_trade_time r \<le> hedger_time) rows)) < client_volume_max"
  shows "get_current_strategy h hedger_time client_notional_change = Inr STRATEGY_SLOW"
proof -
  have "hedger_time + minutes (- time_window) = hedger_time - minutes time_window"
    by (simp add: minutes_def)
  with assms show ?thesis
    by (simp add: get_current_strategy_def recent_client_volume_def client_trades_by_time_def
        Let_def time_window_def)
qed

theorem slow_dominates_witness:
  "client_trades slow_hedger = Frame [slow_row] \<and>
   sum_list (map row_notional
      (filter (\<lambda>r. 0 - minutes time_window < row_trade_time r \<and> row_trade_time r \<le> 0)
         [slow_row])) < client_volume_max \<and>
   get_current_strategy slow_hedger 0 (Counter [(''BTC'', 1000000000000)]) = Inr STRATEGY_SLOW"
proof -
  have a: "client_trades slow_hedger = Frame [slow_row]"
    by (simp add: slow_hedger_def)
  have b: "sum_list (map row_notional
      (filter (\<lambda>r. 0 - minutes time_window < row_trade_time r \<and> row_trade_time r \<le> 0)
         [slow_row])) < client_volume_max"
    by (simp add: slow_row_def minutes_def time_window_def client_volume_max_def)
  from slow_dominates [OF a b] a b show ?thesis by simp
qed

text \<open>
  With distinct keys, STEALTH queues \<^const>\<open>execution_chunks\<close> rounds, each holding
  one single-asset dict per asset of the current positions, in their order. The
  quantity of a chunk is \<open>multiplier * q / execution_chunks\<close>, which is \<open>- q / 5\<close> for
  \<open>q \<ge> 0\<close> and \<open>q / 5\<close> for \<open>q < 0\<close>.
\<close>

lemma zip_star_replicate: "cs \<noteq> [] \<Longrightarrow> zip_star (map (replicate n) cs) = replicate n cs"
proof (induction n)
  case 0
  then show ?case by (subst zip_star.simps) (cases cs, auto)
next
  case (Suc n)
  have "map hd (map (replicate (Suc n)) cs) = cs" by (simp add: comp_def)
  moreover have "map tl (map (replicate (Suc n)) cs) = map (replicate n) cs" by simp
  moreover have "\<not> (map (replicate (Suc n)) cs = [] \<or> (\<exists>xs \<in> set (map (replicate (Suc n)) cs). xs = []))"
    using Suc.prems by auto
  ultimately show ?case using Suc
    by (subst zip_star.simps) (simp del: replicate.simps map_map add: replicate_Suc[symmetric])
qed

lemma fold_update_distinct2:
  "distinct (map fst ps) \<Longrightarrow> fst ` set ps \<inter> fst ` set acc = {} \<Longrightarrow>
   fold (\<lambda>(a, q) acc. AList.update a (f a q) acc) ps acc = acc @ map (\<lambda>(a, q). (a, f a q)) ps"
proof (induction ps arbitrary: acc)
  case Nil
  then show ?case by simp
next
  case (Cons x ps)
  obtain a p where x: "x = (a, p)" by (cases x)
  from Cons.prems have fresh: "a \<notin> fst ` set acc" by (auto simp: x)
  have "fst ` set ps \<inter> fst ` set (acc @ [(a, f a p)]) = {}"
    using Cons.prems by (auto simp: x)
  with Cons.IH[of "acc @ [(a, f a p)]"] Cons.prems fresh show ?case
    by (simp add: x update_fresh)
qed

lemma stealth_chunks_replicate:
  "stealth_chunks a q =
     replicate execution_chunks (Dict [(a, (if q \<ge> 0 then - 1 else 1) * q / of_nat execution_chunks)])"
  by (simp add: stealth_chunks_def Let_def map_replicate_trivial)

lemma stealth_round_robin:
  assumes "distinct (keys cur)"
  shows "get_hedge_quantities_stealth cur =
           concat (replicate execution_chunks
             (map (\<lambda>(a, q). Dict [(a, (if q \<ge> 0 then - 1 else 1) * q / of_nat execution_chunks)])
                (items cur)))"
proof -
  let ?c = "\<lambda>(a, q). Dict [(a, (if q \<ge> 0 then - 1 else 1) * q / of_nat execution_chunks)]"
  have by_asset: "fold (\<lambda>(a, q) by_asset. AList.update a (stealth_chunks a q) by_asset) (items cur) []
      = map (\<lambda>(a, q). (a, stealth_chunks a q)) (items cur)"
    using assms fold_update_distinct2[of "items cur" "[]" stealth_chunks] by (simp add: keys_def)
  have "map snd (map (\<lambda>(a, q). (a, stealth_chunks a q)) (items cur)) =
          map (replicate execution_chunks) (map ?c (items cur))"
    by (simp add: stealth_chunks_replicate case_prod_unfold comp_def)
  then have "get_hedge_quantities_stealth cur =
          concat (zip_star (map (replicate execution_chunks) (map ?c (items cur))))"
    unfolding get_hedge_quantities_stealth_def by_asset Let_def by (rule arg_cong)
  also have "\<dots> = concat (replicate execution_chunks (map ?c (items cur)))"
  proof (cases "items cur = []")
    case True
    then show ?thesis by (subst zip_star.simps) simp
  next
    case False
    then have "map ?c (items cur) \<noteq> []" by simp
    from zip_star_replicate[OF this, of execution_chunks] show ?thesis by (rule arg_cong)
  qed
  finally show ?thesis .
qed

text \<open>
  C1 at a short position of 10 BTC: the five chunks are sales of 2 BTC, which sum to
  the position itself and not to its negation.
\<close>

theorem stealth_negative_position:
  "get_hedge_quantities_stealth (Counter [(''BTC'', - 10)]) =
     [Dict [(''BTC'', - 2)], Dict [(''BTC'', - 2)], Dict [(''BTC'', - 2)],
      Dict [(''BTC'', - 2)], Dict [(''BTC'', - 2)]]"
  by code_simp

text \<open>
  The merge of the popped entry into the result of each strategy. SLOW and STEALTH
  leave the result an empty Counter, so the entry is added to it; NORMAL hands over a
  plain dict, and the entry is written over it.
\<close>

lemma slow_merge_adds:
  "execution_queue h = front # rest \<Longrightarrow>
   get_hedge_quantities h cur ch STRATEGY_SLOW =
     Inr (Counter (counter_update [] (items front)), h\<lparr> execution_queue := rest \<rparr>)"
  by (simp add: get_hedge_quantities_def SUPPORTED_STRATEGIES_def
      STRATEGY_NORMAL_def STRATEGY_SLOW_def STRATEGY_STEALTH_def)

lemma stealth_merge_adds:
  "execution_queue h = front # rest \<Longrightarrow>
   get_hedge_quantities h cur ch STRATEGY_STEALTH =
     Inr (Counter (counter_update [] (items front)),
          h\<lparr> execution_queue := rest @ get_hedge_quantities_stealth cur \<rparr>)"
  by (simp add: get_hedge_quantities_def SUPPORTED_STRATEGIES_def
      STRATEGY_NORMAL_def STRATEGY_SLOW_def STRATEGY_STEALTH_def)

lemma normal_merge_dict:
  "execution_queue h = front # rest \<Longrightarrow>
   get_hedge_quantities h cur ch STRATEGY_NORMAL =
     Inr (Dict (dict_update (items (get_hedge_quantities_normal ch)) (items front)),
          h\<lparr> execution_queue := rest \<rparr>)"
  by (simp add: get_hedge_quantities_def SUPPORTED_STRATEGIES_def
      STRATEGY_NORMAL_def STRATEGY_SLOW_def STRATEGY_STEALTH_def get_hedge_quantities_normal_def)

text \<open>
  C2 at the NORMAL strategy with a client position change of 10 BTC and a chunk of
  -80 BTC at the front of the queue: the front entry is popped, and the result holds
  -80 BTC for the asset, the value of the chunk, where the sum would be -90. The NORMAL
  branch has rebound the result to a plain dict, whose \<^verbatim>\<open>update\<close> replaces.
\<close>

theorem normal_merge_replaces:
  "get_hedge_quantities queued_hedger (Counter [(''BTC'', 410)]) (Counter [(''BTC'', 10)])
     STRATEGY_NORMAL =
   Inr (Dict [(''BTC'', - 80)], queued_hedger \<lparr> execution_queue := [] \<rparr>)"
  by (simp add: get_hedge_quantities_def queued_hedger_def SUPPORTED_STRATEGIES_def
      STRATEGY_NORMAL_def STRATEGY_SLOW_def STRATEGY_STEALTH_def get_hedge_quantities_normal_def
      dict_update_def Hedger_init_def)

text \<open>
  C7 for the selector: \<^verbatim>\<open>get_current_strategy\<close> has no strategy parameter. The only
  strings it receives are the keys of the notional change, and a key that is no
  strategy label raises nothing.
\<close>

theorem selector_takes_no_label:
  "get_current_strategy slow_hedger 0 (Dict [(''BAD'', 1)]) = Inr STRATEGY_SLOW"
  by (simp add: get_current_strategy_def recent_client_volume_def client_trades_by_time_def
      Let_def time_window_def slow_hedger_def slow_row_def minutes_def client_volume_max_def)

text \<open>
  C7 as the code has it. \<^verbatim>\<open>get_hedge_quantities\<close> raises the exception
  \<^verbatim>\<open>Unknown hedging strategy\<close> for a label outside SLOW, NORMAL and STEALTH, and
  returns without any exception for a label among them. \<^verbatim>\<open>get_current_strategy\<close>
  takes no label; on a hedger with loaded client trades it raises nothing and returns
  one of the three labels.
\<close>

theorem unknown_strategy:
  "(strategy \<notin> {''SLOW'', ''NORMAL'', ''STEALTH''} \<longrightarrow>
      get_hedge_quantities h cur ch strategy =
        Inl (Exception (''Unknown hedging strategy '' @ strategy))) \<and>
   (strategy \<in> {''SLOW'', ''NORMAL'', ''STEALTH''} \<longrightarrow>
      (\<exists>r. get_hedge_quantities h cur ch strategy = Inr r)) \<and>
   (client_trades h \<noteq> NoColumns \<longrightarrow>
      (\<exists>s \<in> {''SLOW'', ''NORMAL'', ''STEALTH''}. get_current_strategy h t n = Inr s))"
proof (intro conjI impI)
  assume "strategy \<notin> {''SLOW'', ''NORMAL'', ''STEALTH''}"
  then show "get_hedge_quantities h cur ch strategy =
        Inl (Exception (''Unknown hedging strategy '' @ strategy))"
    by (simp add: get_hedge_quantities_def SUPPORTED_STRATEGIES_def
      STRATEGY_NORMAL_def STRATEGY_SLOW_def STRATEGY_STEALTH_def)
next
  assume "strategy \<in> {''SLOW'', ''NORMAL'', ''STEALTH''}"
  then have "strategy \<in> set SUPPORTED_STRATEGIES"
    by (simp add: SUPPORTED_STRATEGIES_def STRATEGY_NORMAL_def STRATEGY_SLOW_def STRATEGY_STEALTH_def)
  from get_hedge_quantities_priced[OF this, of h UNIV cur ch]
  show "\<exists>r. get_hedge_quantities h cur ch strategy = Inr r" by auto
next
  assume "client_trades h \<noteq> NoColumns"
  from get_current_strategy_loaded[OF this, of t n]
  show "\<exists>s \<in> {''SLOW'', ''NORMAL'', ''STEALTH''}. get_current_strategy h t n = Inr s"
    by (simp add: SUPPORTED_STRATEGIES_def STRATEGY_NORMAL_def STRATEGY_SLOW_def STRATEGY_STEALTH_def)
qed

theorem unknown_strategy_witness:
  "get_hedge_quantities (Hedger_init []) (Dict []) (Dict []) ''BAD'' =
     Inl (Exception ''Unknown hedging strategy BAD'') \<and>
   (\<exists>r. get_hedge_quantities (Hedger_init []) (Dict []) (Dict []) ''STEALTH'' = Inr r) \<and>
   (\<exists>s \<in> {''SLOW'', ''NORMAL'', ''STEALTH''}.
      get_current_strategy slow_hedger 0 (Dict []) = Inr s)"
proof -
  have l: "client_trades slow_hedger \<noteq> NoColumns" by (simp add: slow_hedger_def)
  from unknown_strategy [of "''BAD''" "Hedger_init []" "Dict []" "Dict []" 0 "Dict []"]
       unknown_strategy [of "''STEALTH''" "Hedger_init []" "Dict []" "Dict []" 0 "Dict []"]
       unknown_strategy [of "''SLOW''" slow_hedger "Dict []" "Dict []" 0 "Dict []"]
       l
  show ?thesis by simp
qed


section \<open>Claims about the simulation driver\<close>

lemma priced_iff:
  "priced h \<longleftrightarrow>
     client_trades h \<noteq> NoColumns \<and>
     row_asset ` set (iterrows (client_trades h)) \<subseteq> fst ` set (close_prices (exchange h)) \<and>
     fst ` set (positions (client_book h)) \<subseteq> fst ` set (close_prices (exchange h)) \<and>
     fst ` set (positions (hedge_book h)) \<subseteq> fst ` set (close_prices (exchange h)) \<and>
     (\<forall>m \<in> set (execution_queue h). fst ` set (items m) \<subseteq> fst ` set (close_prices (exchange h)))"
  by (simp add: priced_def Let_def keys_def image_subset_iff)

lemma cycle_priced:
  assumes "priced h"
  shows "\<exists>h'. cycle (t, h) = Inr (t + minutes 1, h') \<and> priced h'"
proof -
  let ?P = "fst ` set (close_prices (exchange h))"
  let ?t1 = "t + minutes 1"
  note pr = assms[unfolded priced_iff]
  from pr obtain rows where rows: "client_trades h = Frame rows"
    by (cases "client_trades h") auto
  define booked where "booked = filter (\<lambda>r. row_trade_time r > t \<and> row_trade_time r \<le> ?t1) rows"
  define h1 where "h1 = h\<lparr> client_book := fold book_row booked (client_book h) \<rparr>"
  have b: "book_client_trades h t ?t1 = Inr (Frame booked, h1)"
    by (simp add: book_client_trades_def client_trades_by_time_def rows booked_def h1_def)
  have booked_P: "row_asset ` set booked \<subseteq> ?P"
    using pr by (auto simp: rows booked_def)
  have cb1: "fst ` set (positions (client_book h1)) \<subseteq> ?P"
    using pr booked_P by (simp add: h1_def keys_fold_book_row)
  have hb1: "fst ` set (positions (hedge_book h1)) \<subseteq> ?P"
    using pr by (simp add: h1_def)
  from net_positions_live[of "portfolio h1"] obtain c where
    n: "net_positions (portfolio h1) None = Inr (Counter c)" and
    kc: "fst ` set c = (\<Union>b\<in>set (books (portfolio h1)). fst ` set (positions b))"
    by blast
  have cur_P: "fst ` set (items (Counter c)) \<subseteq> ?P"
    using cb1 hb1 by (simp add: kc portfolio_def)
  have "client_trades h1 \<noteq> NoColumns" by (simp add: h1_def rows)
  from get_current_strategy_loaded[OF this, of ?t1 "trades_net_by_notional (Frame booked)"]
  obtain strat where st: "strat \<in> set SUPPORTED_STRATEGIES"
    and s: "get_current_strategy h1 ?t1 (trades_net_by_notional (Frame booked)) = Inr strat"
    by blast
  have ch_P: "fst ` set (items (trades_net_by_position (Frame booked))) \<subseteq> ?P"
    using booked_P by (simp add: keys_trades_net_by_position)
  have q1: "\<forall>m \<in> set (execution_queue h1). fst ` set (items m) \<subseteq> ?P"
    using pr by (simp add: h1_def)
  from get_hedge_quantities_priced[OF st q1 cur_P ch_P]
  obtain hq h2 where
    g: "get_hedge_quantities h1 (Counter c) (trades_net_by_position (Frame booked)) strat = Inr (hq, h2)"
    and hq_P: "fst ` set (items hq) \<subseteq> ?P"
    and q2: "\<forall>m \<in> set (execution_queue h2). fst ` set (items m) \<subseteq> ?P"
    by blast
  note g' = get_hedge_quantities_fields[OF g]
  have ex2: "exchange h2 = exchange h" using g' by (simp add: h1_def)
  have "fst ` set (items hq) \<subseteq> fst ` set (close_prices (exchange h2))"
    using hq_P by (simp add: ex2)
  moreover have "fst ` set (positions (hedge_book h2)) \<subseteq> fst ` set (close_prices (exchange h2))"
    using hb1 g' by (simp add: ex2)
  ultimately obtain h3 where
    p: "place_orders_loop (items hq) ?t1 h2 = Inr h3" and
    hb3: "fst ` set (positions (hedge_book h3)) \<subseteq> fst ` set (close_prices (exchange h2))"
    using place_orders_loop_priced[of "items hq" h2 ?t1] by blast
  note p' = place_orders_loop_fields[OF p]
  have cy: "cycle (t, h) = Inr (?t1, h3)"
    by (simp add: cycle_def Let_def b n s g place_hedge_orders_def p)
  have "priced h3"
    unfolding priced_iff using p' g' hb3 q2 cb1 pr
    by (simp add: ex2 h1_def rows)
  with cy show ?thesis by blast
qed


lemma run_loop_stops:
  "run_loop s = Inr s' \<Longrightarrow> end_time (snd s) = Some e \<Longrightarrow>
     e < fst s' \<and> execution_queue (snd s') = []"
proof (induction s rule: run_loop.induct)
  case (1 s)
  show ?case
  proof (cases "fst s \<le> e \<or> 0 < length (execution_queue (snd s))")
    case False
    with "1.prems" show ?thesis
      by (simp add: run_loop.simps[of s])
  next
    case True
    with "1.prems" obtain s1 where c: "cycle s = Inr s1" and r: "run_loop s1 = Inr s'"
      by (cases "cycle s") (auto simp: run_loop.simps[of s])
    from c have "cycle (fst s, snd s) = Inr (fst s1, snd s1)" by simp
    from cycle_fields(3)[OF this] "1.prems"(2) have "end_time (snd s1) = Some e" by simp
    from "1.IH"[OF "1.prems"(2) True c r this] show ?thesis .
  qed
qed

lemma run_loop_priced:
  "priced (snd s) \<Longrightarrow> end_time (snd s) = Some e \<Longrightarrow> \<exists>s'. run_loop s = Inr s'"
proof (induction s rule: run_loop.induct)
  case (1 s)
  show ?case
  proof (cases "fst s \<le> e \<or> 0 < length (execution_queue (snd s))")
    case False
    with "1.prems" show ?thesis
      by (simp add: run_loop.simps[of s])
  next
    case True
    from cycle_priced[OF "1.prems"(1), of "fst s"] obtain h1 where
      c: "cycle s = Inr (fst s + minutes 1, h1)" and p: "priced h1"
      by auto
    from c have "cycle (fst s, snd s) = Inr (fst s + minutes 1, h1)" by simp
    from cycle_fields(3)[OF this] "1.prems"(2) have e1: "end_time h1 = Some e" by simp
    from "1.IH"[OF "1.prems"(2) True c] p e1
    obtain s' where "run_loop (fst s + minutes 1, h1) = Inr s'" by auto
    with True c "1.prems"(2) show ?thesis
      by (simp add: run_loop.simps[of s])
  qed
qed

lemma run_loop_drain:
  assumes "priced h" and "end_time h = Some e"
    and "\<forall>r \<in> set (iterrows (client_trades h)). row_trade_time r \<le> t"
    and "e < t"
  shows "\<exists>h'. run_loop (t, h) = Inr (t + minutes (int (length (execution_queue h))), h') \<and>
              execution_queue h' = []"
  using assms
proof (induction "length (execution_queue h)" arbitrary: t h)
  case 0
  then show ?case
    by (simp add: run_loop.simps[of "(t, h)"] minutes_def)
next
  case (Suc n)
  from cycle_priced[OF Suc.prems(1), of t] obtain h1 where
    c: "cycle (t, h) = Inr (t + minutes 1, h1)" and p: "priced h1"
    by auto
  note f = cycle_fields[OF c]
  from cycle_pop[OF c Suc.prems(3)] have q: "execution_queue h1 = tl (execution_queue h)" .
  with Suc.hyps(2) have n: "n = length (execution_queue h1)" by simp
  have e1: "end_time h1 = Some e" using f Suc.prems(2) by simp
  have r1: "\<forall>r \<in> set (iterrows (client_trades h1)). row_trade_time r \<le> t + minutes 1"
    using Suc.prems(3) by (auto simp: f minutes_def)
  have t1: "e < t + minutes 1" using Suc.prems(4) by (simp add: minutes_def)
  from Suc.hyps(1)[OF n p e1 r1 t1] obtain h' where
    r: "run_loop (t + minutes 1, h1) = Inr (t + minutes 1 + minutes (int (length (execution_queue h1))), h')"
    and "execution_queue h' = []" by blast
  moreover have "t + minutes 1 + minutes (int (length (execution_queue h1))) =
        t + minutes (int (length (execution_queue h)))"
    using Suc.hyps(2) n by (simp add: minutes_def)
  moreover have "execution_queue h \<noteq> []" using Suc.hyps(2) by auto
  ultimately show ?case
    using c Suc.prems(2) by (simp add: run_loop.simps[of "(t, h)"])
qed

lemma load_client_trades_priced:
  assumes "load_client_trades file_rows (Hedger_init prices) = Some h"
    and "\<forall>r \<in> set file_rows. row_asset r \<in> fst ` set prices"
  shows "priced h" "execution_queue h = []"
    "start_time h = Some (Min (row_trade_time ` set file_rows) - 60)"
    "end_time h = Some (Max (row_trade_time ` set file_rows))"
    "\<forall>r \<in> set (iterrows (client_trades h)). row_trade_time r \<le> Max (row_trade_time ` set file_rows)"
proof -
  let ?rows = "map (\<lambda>r. r\<lparr> row_notional := row_quantity r * row_price r \<rparr>) file_rows"
  from assms(1) have ne: "file_rows \<noteq> []"
    by (auto simp: load_client_trades_def split: if_splits)
  have times: "row_trade_time ` (\<lambda>r. r\<lparr> row_notional := row_quantity r * row_price r \<rparr>) ` set file_rows
                 = row_trade_time ` set file_rows"
    by (simp add: image_image)
  from assms(1) ne have h: "h = (Hedger_init prices)\<lparr> client_trades := Frame (sort_key row_trade_time ?rows),
                    start_time := Some (Min (row_trade_time ` set file_rows) + minutes (- 1)),
                    end_time := Some (Max (row_trade_time ` set file_rows)) \<rparr>"
    by (auto simp: load_client_trades_def Let_def times)
  show "execution_queue h = []" by (simp add: h Hedger_init_def)
  show "start_time h = Some (Min (row_trade_time ` set file_rows) - 60)"
    by (simp add: h minutes_def)
  show "end_time h = Some (Max (row_trade_time ` set file_rows))" by (simp add: h)
  show "priced h"
    using assms(2) by (auto simp: priced_iff h Hedger_init_def Exchange_init_def Book_init_def image_image)
  show "\<forall>r \<in> set (iterrows (client_trades h)). row_trade_time r \<le> Max (row_trade_time ` set file_rows)"
    by (simp add: h)
qed

lemma place_orders_loop_error:
  "place_orders_loop ps t h = Inl e \<Longrightarrow> \<exists>a. e = KeyError a"
proof (induction ps t h rule: place_orders_loop.induct)
  case (1 trade_t h)
  then show ?case by simp
next
  case (2 k q rest trade_t h)
  show ?case
  proof (cases "at_market_order (exchange h) (book_name (hedge_book h)) k q trade_t")
    case (Inl e')
    with "2.prems" have "e = e'" by simp
    with Inl show ?thesis
      by (auto simp: at_market_order_def split: option.splits)
  next
    case (Inr tr)
    with "2.prems" "2.IH"[OF Inr] show ?thesis by simp
  qed
qed

lemma cycle_loaded:
  assumes "client_trades h \<noteq> NoColumns"
  shows "(\<exists>a. cycle (t, h) = Inl (KeyError a)) \<or> (\<exists>h'. cycle (t, h) = Inr (t + minutes 1, h'))"
proof -
  let ?t1 = "t + minutes 1"
  from assms obtain rows where rows: "client_trades h = Frame rows"
    by (cases "client_trades h") auto
  define booked where "booked = filter (\<lambda>r. row_trade_time r > t \<and> row_trade_time r \<le> ?t1) rows"
  define h1 where "h1 = h\<lparr> client_book := fold book_row booked (client_book h) \<rparr>"
  have b: "book_client_trades h t ?t1 = Inr (Frame booked, h1)"
    by (simp add: book_client_trades_def client_trades_by_time_def rows booked_def h1_def)
  from net_positions_live[of "portfolio h1"] obtain c where
    n: "net_positions (portfolio h1) None = Inr (Counter c)"
    by blast
  have "client_trades h1 \<noteq> NoColumns" by (simp add: h1_def rows)
  from get_current_strategy_loaded[OF this, of ?t1 "trades_net_by_notional (Frame booked)"]
  obtain strat where st: "strat \<in> set SUPPORTED_STRATEGIES"
    and s: "get_current_strategy h1 ?t1 (trades_net_by_notional (Frame booked)) = Inr strat"
    by blast
  from get_hedge_quantities_priced[OF st, of h1 UNIV "Counter c" "trades_net_by_position (Frame booked)"]
  obtain hq h2 where
    g: "get_hedge_quantities h1 (Counter c) (trades_net_by_position (Frame booked)) strat = Inr (hq, h2)"
    by auto
  show ?thesis
  proof (cases "place_orders_loop (items hq) ?t1 h2")
    case (Inl e)
    from place_orders_loop_error[OF this] obtain a where "e = KeyError a" by blast
    with Inl have "cycle (t, h) = Inl (KeyError a)"
      by (simp add: cycle_def Let_def b n s g place_hedge_orders_def)
    then show ?thesis by blast
  next
    case (Inr h3)
    then have "cycle (t, h) = Inr (?t1, h3)"
      by (simp add: cycle_def Let_def b n s g place_hedge_orders_def)
    then show ?thesis by blast
  qed
qed

lemma run_loop_returns:
  "client_trades (snd s) \<noteq> NoColumns \<Longrightarrow> end_time (snd s) = Some e \<Longrightarrow>
     (\<exists>a. run_loop s = Inl (KeyError a)) \<or> (\<exists>s'. run_loop s = Inr s')"
proof (induction s rule: run_loop.induct)
  case (1 s)
  show ?case
  proof (cases "fst s \<le> e \<or> 0 < length (execution_queue (snd s))")
    case False
    with "1.prems" show ?thesis
      by (simp add: run_loop.simps[of s])
  next
    case True
    from cycle_loaded[OF "1.prems"(1), of "fst s"]
    consider a where "cycle s = Inl (KeyError a)"
      | h1 where "cycle s = Inr (fst s + minutes 1, h1)"
      by auto
    then show ?thesis
    proof cases
      case 1
      with True "1.prems"(2) show ?thesis
        by (simp add: run_loop.simps[of s])
    next
      case 2
      then have c: "cycle (fst s, snd s) = Inr (fst s + minutes 1, h1)" by simp
      from cycle_fields(2,3)[OF c] "1.prems"
      have "client_trades h1 \<noteq> NoColumns" "end_time h1 = Some e" by simp_all
      with "1.IH"[OF "1.prems"(2) True 2]
      have "(\<exists>a. run_loop (fst s + minutes 1, h1) = Inl (KeyError a)) \<or>
            (\<exists>s'. run_loop (fst s + minutes 1, h1) = Inr s')" by simp
      with True 2 "1.prems"(2) show ?thesis
        by (simp add: run_loop.simps[of s])
    qed
  qed
qed

lemma load_client_trades_loaded:
  assumes "load_client_trades file_rows h0 = Some h"
  shows "client_trades h \<noteq> NoColumns"
    "start_time h = Some (Min (row_trade_time ` set file_rows) - 60)"
    "end_time h = Some (Max (row_trade_time ` set file_rows))"
    "\<forall>r \<in> set (iterrows (client_trades h)). row_trade_time r \<le> Max (row_trade_time ` set file_rows)"
proof -
  have times: "row_trade_time ` (\<lambda>r. r\<lparr> row_notional := row_quantity r * row_price r \<rparr>) ` set file_rows
                 = row_trade_time ` set file_rows"
    by (simp add: image_image)
  from assms show "client_trades h \<noteq> NoColumns"
    by (auto simp: load_client_trades_def Let_def split: if_splits)
  from assms show "start_time h = Some (Min (row_trade_time ` set file_rows) - 60)"
    by (auto simp: load_client_trades_def Let_def times minutes_def split: if_splits)
  from assms show "end_time h = Some (Max (row_trade_time ` set file_rows))"
    by (auto simp: load_client_trades_def Let_def times split: if_splits)
  from assms show "\<forall>r \<in> set (iterrows (client_trades h)). row_trade_time r \<le> Max (row_trade_time ` set file_rows)"
    by (auto simp: load_client_trades_def Let_def split: if_splits)
qed

lemma Book_trades_add:
  "Book_trades (Book_trade_add b tr) a =
     (if asset tr = a then Book_trades b a @ [tr] else Book_trades b a)"
proof (cases "asset tr \<in> fst ` set (positions b)")
  case True
  then obtain p where p: "map_of (positions b) (asset tr) = Some p"
    by (metis domD dom_map_of_conv_image_fst)
  with True show ?thesis
    by (auto simp: Book_trades_def Book_trade_add_def Let_def AList.update_conv'
        Position_trade_add_def)
next
  case False
  then have n: "map_of (positions b) (asset tr) = None"
    by (simp add: map_of_eq_None_iff)
  with False show ?thesis
    by (auto simp: Book_trades_def Book_trade_add_def Let_def AList.update_conv'
        Position_trade_add_def Position_init_def)
qed

lemma book_name_add [simp]: "book_name (Book_trade_add b tr) = book_name b"
  by (simp add: Book_trade_add_def Let_def split: option.splits)

lemma place_orders_loop_trades:
  "place_orders_loop ps t h = Inr h' \<Longrightarrow>
   Book_trades (hedge_book h') a =
     Book_trades (hedge_book h) a @
     map (\<lambda>(k, q). Trade_init (book_name (hedge_book h)) t k ''USD'' q
                      (get0 (close_prices (exchange h)) k))
       (filter (\<lambda>(k, q). k = a) ps)"
proof (induction ps t h rule: place_orders_loop.induct)
  case (1 trade_t h)
  then show ?case by simp
next
  case (2 k q rest trade_t h)
  from "2.prems" obtain tr where
    am: "at_market_order (exchange h) (book_name (hedge_book h)) k q trade_t = Inr tr" and
    r: "place_orders_loop rest trade_t (h\<lparr> hedge_book := Book_trade_add (hedge_book h) tr \<rparr>) = Inr h'"
    by (cases "at_market_order (exchange h) (book_name (hedge_book h)) k q trade_t") auto
  from am have tr: "tr = Trade_init (book_name (hedge_book h)) trade_t k ''USD'' q
                      (get0 (close_prices (exchange h)) k)"
    by (auto simp: at_market_order_def get0_def split: option.splits)
  from "2.IH"[OF am r] show ?case
    by (simp add: Book_trades_add tr)
qed

text \<open>
  C8 at a zero hedge quantity. \<^verbatim>\<open>place_hedge_orders\<close> loops over all items of the
  mapping and has no test on the quantity: for \<open>{BTC: 0}\<close> it requests an order of 0
  BTC and books the trade. Such a mapping is computed in a cycle: when the BTC trades
  of the client cancel and STEALTH is triggered by ETH, the first chunk popped is
  \<open>{BTC: 0}\<close>, and the cycle books a BTC trade of quantity 0 and no ETH trade.
\<close>

theorem zero_quantity_order_placed:
  "place_hedge_orders (Hedger_init venue_prices) (Counter [(''BTC'', 0)]) 0 =
     Inr ((Hedger_init venue_prices)
            \<lparr> hedge_book :=
                \<lparr> book_name = ''HEDGE BOOK'',
                  positions = [(''BTC'', \<lparr> pos_asset = ''BTC'', pos_quantity = 0,
                                 trades = [Trade_init ''HEDGE BOOK'' 0 ''BTC'' ''USD'' 0 30000] \<rparr>)] \<rparr> \<rparr>) \<and>
   (case cycle (- 60, flat_btc_hedger) of
      Inl e \<Rightarrow> False
    | Inr (t, h') \<Rightarrow>
        map quantity (Book_trades (hedge_book h') ''BTC'') = [0] \<and>
        Book_trades (hedge_book h') ''ETH'' = [])"
  by code_simp

text \<open>
  C8 as the code has it. In a cycle that completes, the orders follow the items of the
  hedge quantities \<open>hq\<close> computed in that cycle: for every asset, the trades added to
  the hedge book are one trade per item of \<open>hq\<close> with that asset as key, carrying the
  item's quantity, whether it is zero or not, at the exchange's price and the new
  hedger time. An asset that is no key of \<open>hq\<close> gets no order. The cycle completes
  whenever the hedger is priced.
\<close>

theorem orders_for_every_key:
  "(priced h \<longrightarrow> (\<exists>h'. cycle (t, h) = Inr (t + minutes 1, h'))) \<and>
   (\<forall>t' (h'::Hedger). cycle (t, h) = Inr (t', h') \<longrightarrow>
      (\<exists>f h1 cur strat hq h2.
           book_client_trades h t t' = Inr (f, h1) \<and>
           net_positions (portfolio h1) None = Inr cur \<and>
           get_current_strategy h1 t' (trades_net_by_notional f) = Inr strat \<and>
           get_hedge_quantities h1 cur (trades_net_by_position f) strat = Inr (hq, h2) \<and>
           place_hedge_orders h2 hq t' = Inr h' \<and>
           (\<forall>a. Book_trades (hedge_book h') a =
                  Book_trades (hedge_book h) a @
                  map (\<lambda>(k, q). Trade_init (book_name (hedge_book h)) t' k ''USD'' q
                                   (get0 (close_prices (exchange h)) k))
                    (filter (\<lambda>(k, q). k = a) (items hq)))))"
proof (intro conjI allI impI)
  assume "priced h"
  from cycle_priced[OF this, of t] show "\<exists>h'. cycle (t, h) = Inr (t + minutes 1, h')"
    by blast
next
  fix t' :: datetime and h' :: Hedger
  assume c: "cycle (t, h) = Inr (t', h')"
  from c obtain f h1 cur strat hq h2 where
    b: "book_client_trades h t (t + minutes 1) = Inr (f, h1)" and
    n: "net_positions (portfolio h1) None = Inr cur" and
    s: "get_current_strategy h1 (t + minutes 1) (trades_net_by_notional f) = Inr strat" and
    g: "get_hedge_quantities h1 cur (trades_net_by_position f) strat = Inr (hq, h2)" and
    p: "place_hedge_orders h2 hq (t + minutes 1) = Inr h'" and
    t': "t' = t + minutes 1"
    by (rule cycle_steps)
  note b' = book_client_trades_fields[OF b]
  note g' = get_hedge_quantities_fields[OF g]
  have hb: "hedge_book h2 = hedge_book h" and ex: "exchange h2 = exchange h"
    using b' g' by simp_all
  have "\<forall>a. Book_trades (hedge_book h') a =
                  Book_trades (hedge_book h) a @
                  map (\<lambda>(k, q). Trade_init (book_name (hedge_book h)) t' k ''USD'' q
                                   (get0 (close_prices (exchange h)) k))
                    (filter (\<lambda>(k, q). k = a) (items hq))"
    using place_orders_loop_trades[OF p[unfolded place_hedge_orders_def]]
    by (simp add: hb ex t')
  with b n s g p show "\<exists>f h1 cur strat hq h2.
           book_client_trades h t t' = Inr (f, h1) \<and>
           net_positions (portfolio h1) None = Inr cur \<and>
           get_current_strategy h1 t' (trades_net_by_notional f) = Inr strat \<and>
           get_hedge_quantities h1 cur (trades_net_by_position f) strat = Inr (hq, h2) \<and>
           place_hedge_orders h2 hq t' = Inr h' \<and>
           (\<forall>a. Book_trades (hedge_book h') a =
                  Book_trades (hedge_book h) a @
                  map (\<lambda>(k, q). Trade_init (book_name (hedge_book h)) t' k ''USD'' q
                                   (get0 (close_prices (exchange h)) k))
                    (filter (\<lambda>(k, q). k = a) (items hq)))"
    unfolding t' by blast
qed

theorem orders_for_every_key_witness:
  "priced flat_btc_hedger \<and>
   (\<exists>h' f h1 cur strat hq h2.
           cycle (- 60, flat_btc_hedger) = Inr (0, h') \<and>
           book_client_trades flat_btc_hedger (- 60) 0 = Inr (f, h1) \<and>
           net_positions (portfolio h1) None = Inr cur \<and>
           get_current_strategy h1 0 (trades_net_by_notional f) = Inr strat \<and>
           get_hedge_quantities h1 cur (trades_net_by_position f) strat = Inr (hq, h2) \<and>
           place_hedge_orders h2 hq 0 = Inr h' \<and>
           (\<forall>a. Book_trades (hedge_book h') a =
                  Book_trades (hedge_book flat_btc_hedger) a @
                  map (\<lambda>(k, q). Trade_init (book_name (hedge_book flat_btc_hedger)) 0 k ''USD'' q
                                   (get0 (close_prices (exchange flat_btc_hedger)) k))
                    (filter (\<lambda>(k, q). k = a) (items hq))))"
proof -
  have p: "priced flat_btc_hedger" by code_simp
  note th = orders_for_every_key [of flat_btc_hedger "- 60"]
  from th p obtain h' where c: "cycle (- 60, flat_btc_hedger) = Inr (0, h')"
    by (auto simp: minutes_def)
  with th p show ?thesis by blast
qed

text \<open>
  C9 at a feed of two assets. Both trades arrive at time 0, the latest client trade
  time. STEALTH queues \<^const>\<open>execution_chunks\<close> entries for each of the two assets,
  ten in all, and one is popped per cycle: the loop is left at minute 9, after nine
  cycles past the latest client trade, which is more than \<^const>\<open>execution_chunks\<close>.
\<close>

theorem stealth_drain_exceeds_chunks:
  "load_client_trades two_asset_feed (Hedger_init venue_prices) = Some two_asset_hedger \<and>
   end_time two_asset_hedger = Some 0 \<and>
   (case run_hedging two_asset_hedger of Inl e \<Rightarrow> None | Inr (t, h') \<Rightarrow> Some t) =
     Some (0 + minutes 9) \<and>
   int execution_chunks < 9"
  by code_simp

text \<open>
  C9 as the code has it. For a client file with at least one row \<^verbatim>\<open>run_hedging\<close>
  always comes to an end: either the exchange raises \<^verbatim>\<open>KeyError\<close> for an asset it has
  no price for, or the loop is left with the clock past the latest client trade time
  and the queue empty; when the exchange prices every asset of the file it is the
  latter. The loop leaves a state unchanged exactly when that condition holds in it.
  Once the clock is past the latest client trade time, each cycle pops one queue entry
  and adds none: the loop runs one more cycle per entry that is queued, however many
  there are.
\<close>

theorem run_hedging_terminates:
  assumes "load_client_trades file_rows (Hedger_init prices) = Some h"
  shows "((\<exists>a. run_hedging h = Inl (KeyError a)) \<or>
          (\<exists>t h'. run_hedging h = Inr (t, h') \<and>
                  Max (row_trade_time ` set file_rows) < t \<and> execution_queue h' = [])) \<and>
         ((\<forall>r \<in> set file_rows. row_asset r \<in> fst ` set prices) \<longrightarrow>
          (\<exists>t h'. run_hedging h = Inr (t, h') \<and>
                  Max (row_trade_time ` set file_rows) < t \<and> execution_queue h' = [])) \<and>
         (\<forall>t0 (h0::Hedger). end_time h0 = end_time h \<longrightarrow>
            (run_loop (t0, h0) = Inr (t0, h0) \<longleftrightarrow>
               Max (row_trade_time ` set file_rows) < t0 \<and> execution_queue h0 = [])) \<and>
         (\<forall>t0 (h0::Hedger). priced h0 \<and> client_trades h0 = client_trades h \<and> end_time h0 = end_time h \<and>
                  Max (row_trade_time ` set file_rows) < t0 \<longrightarrow>
            (\<exists>h'. run_loop (t0, h0) =
                     Inr (t0 + minutes (int (length (execution_queue h0))), h') \<and>
                   execution_queue h' = []))"
proof (intro conjI allI impI)
  let ?e = "Max (row_trade_time ` set file_rows)"
  let ?s = "(Min (row_trade_time ` set file_rows) - 60, h)"
  note l = load_client_trades_loaded[OF assms]
  have rh: "run_hedging h = run_loop ?s"
    by (simp add: run_hedging_def l(2))
  from run_loop_returns[of ?s ?e] l(1,3)
  consider a where "run_loop ?s = Inl (KeyError a)" | s' where "run_loop ?s = Inr s'"
    by auto
  then show "(\<exists>a. run_hedging h = Inl (KeyError a)) \<or>
          (\<exists>t h'. run_hedging h = Inr (t, h') \<and> ?e < t \<and> execution_queue h' = [])"
  proof cases
    case 1
    then show ?thesis by (simp add: rh)
  next
    case 2
    from run_loop_stops[OF 2] l(3) have "?e < fst s'" "execution_queue (snd s') = []"
      by simp_all
    moreover from 2 have "run_hedging h = Inr (fst s', snd s')" by (simp add: rh)
    ultimately show ?thesis by blast
  qed
next
  let ?e = "Max (row_trade_time ` set file_rows)"
  assume a: "\<forall>r \<in> set file_rows. row_asset r \<in> fst ` set prices"
  note l = load_client_trades_priced[OF assms a]
  from run_loop_priced[of "(Min (row_trade_time ` set file_rows) - 60, h)" ?e] l(1,4)
  obtain s' where r: "run_loop (Min (row_trade_time ` set file_rows) - 60, h) = Inr s'"
    by auto
  from run_loop_stops[OF r] l(4) have "?e < fst s'" "execution_queue (snd s') = []"
    by simp_all
  moreover from r l(3) have "run_hedging h = Inr (fst s', snd s')"
    by (simp add: run_hedging_def)
  ultimately show "\<exists>t h'. run_hedging h = Inr (t, h') \<and> ?e < t \<and> execution_queue h' = []"
    by blast
next
  fix t0 :: datetime and h0 :: Hedger
  let ?e = "Max (row_trade_time ` set file_rows)"
  note l = load_client_trades_loaded[OF assms]
  assume e0: "end_time h0 = end_time h"
  with l(3) have e: "end_time (snd (t0, h0)) = Some ?e" by simp
  show "run_loop (t0, h0) = Inr (t0, h0) \<longleftrightarrow> ?e < t0 \<and> execution_queue h0 = []"
  proof
    assume "run_loop (t0, h0) = Inr (t0, h0)"
    from run_loop_stops[OF this e] show "?e < t0 \<and> execution_queue h0 = []" by simp
  next
    assume "?e < t0 \<and> execution_queue h0 = []"
    with e show "run_loop (t0, h0) = Inr (t0, h0)"
      by (simp add: run_loop.simps[of "(t0, h0)"])
  qed
next
  fix t0 :: datetime and h0 :: Hedger
  let ?e = "Max (row_trade_time ` set file_rows)"
  note l = load_client_trades_loaded[OF assms]
  assume a: "priced h0 \<and> client_trades h0 = client_trades h \<and> end_time h0 = end_time h \<and> ?e < t0"
  then have p: "priced h0" and e: "end_time h0 = Some ?e" and t: "?e < t0"
    using l(3) by simp_all
  have "\<forall>r \<in> set (iterrows (client_trades h0)). row_trade_time r \<le> t0"
  proof
    fix r assume "r \<in> set (iterrows (client_trades h0))"
    with a l(4) have "row_trade_time r \<le> ?e" by simp
    with t show "row_trade_time r \<le> t0" by simp
  qed
  from run_loop_drain[OF p e this t]
  show "\<exists>h'. run_loop (t0, h0) = Inr (t0 + minutes (int (length (execution_queue h0))), h') \<and>
             execution_queue h' = []" .
qed

theorem run_hedging_terminates_witness:
  "load_client_trades two_asset_feed (Hedger_init venue_prices) = Some two_asset_hedger \<and>
   list_all (\<lambda>r. row_asset r \<in> fst ` set venue_prices) two_asset_feed \<and>
   (\<exists>t h'. run_hedging two_asset_hedger = Inr (t, h') \<and>
           Max (row_trade_time ` set two_asset_feed) < t \<and> execution_queue h' = [])"
proof -
  have l: "load_client_trades two_asset_feed (Hedger_init venue_prices) = Some two_asset_hedger"
    by code_simp
  have a: "\<forall>r \<in> set two_asset_feed. row_asset r \<in> fst ` set venue_prices"
    by code_simp
  from run_hedging_terminates [OF l] l a show ?thesis
    by (simp add: list_all_iff)
qed

end
